theory Spec2Isabelle
  imports Main "HOL-Library.Word" "HOL-Library.Multiset" "HOL-Library.Sublist"
begin

section \<open>The deployment tracker (DeploymentData)\<close>

text \<open>
  The tracker of one deployment: its groups, the orders placed and the leases won.
  The Go struct is a record. A Go slice whose backing array nobody else holds is a list:
  \<open>len\<close> is \<open>length\<close> and \<open>append(s, x)\<close> is \<open>s @ [x]\<close>; a nil slice and an empty one
  are both \<open>[]\<close> (the code only takes their length and ranges over them). The section
  on memory below keeps the slice header and the backing arrays apart, for the one
  method that hands the slice out.

  The types of the Akash and Cosmos libraries (\<open>sdl.SDL\<close>, \<open>manifest.Manifest\<close>,
  \<open>dtypes.GroupSpec\<close>, \<open>mtypes.OrderID\<close>, \<open>mtypes.LeaseID\<close>) are not declared in this
  repository: they are the type parameters \<open>'s\<close>, \<open>'m\<close>, \<open>'g\<close>, \<open>'o\<close>, \<open>'l\<close>. Of
  \<open>dtypes.DeploymentID\<close> the code uses the fields \<open>Owner\<close> (an account address, a byte
  slice) and \<open>DSeq\<close> (compared with 0 and assigned a uint64).
\<close>

type_synonym byte = "8 word"

type_synonym uint64 = "64 word"

record DeploymentID =
  Owner :: "byte list"
  DSeq :: uint64

text \<open>
  A Go pointer \<open>*T\<close>, as far as this code uses one: \<open>None\<close> is nil, \<open>Some v\<close> points to
  a cell holding \<open>v\<close>. The code reads through the group pointers and never writes.
\<close>

type_synonym 'a ptr = "'a option"

record 'g MsgCreateDeployment =
  msg_ID :: DeploymentID
  msg_Groups :: "'g list"
  msg_Version :: "byte list"

record ('s, 'm, 'g, 'o, 'l) DeploymentData =
  SDLFile :: "byte list"
  SDL :: 's
  Manifest :: 'm
  Groups :: "'g ptr list"
  DeploymentID :: DeploymentID
  OrderID :: "'o list"
  LeaseID :: "'l list"
  Version :: "byte list"

text \<open>
  The methods have a pointer receiver and change the struct in place: each takes the
  tracker and returns it updated. \<open>Lock\<close>/\<open>Unlock\<close> of the embedded mutex make a call
  atomic and change nothing else; a sequential model leaves them out.
\<close>

definition ExpectedLeases :: "('s, 'm, 'g, 'o, 'l) DeploymentData \<Rightarrow> bool" where
  "ExpectedLeases dd = (length (Groups dd) = length (LeaseID dd))"

definition ExpectedOrders :: "('s, 'm, 'g, 'o, 'l) DeploymentData \<Rightarrow> bool" where
  "ExpectedOrders dd = (length (Groups dd) = length (OrderID dd))"

text \<open>
  Modelled from the spec: \<open>Equals\<close> of \<open>mtypes.OrderID\<close> and \<open>mtypes.LeaseID\<close> belongs to the
  market module, which this repository imports and does not contain. The spec says that
  removal "compares by value equality, not identity".
\<close>

definition Equals :: "'a \<Rightarrow> 'a \<Rightarrow> bool" where
  "Equals a b = (a = b)"

definition AddOrder ::
  "'o \<Rightarrow> ('s, 'm, 'g, 'o, 'l) DeploymentData \<Rightarrow> ('s, 'm, 'g, 'o, 'l) DeploymentData" where
  "AddOrder order dd = dd\<lparr>OrderID := OrderID dd @ [order]\<rparr>"

text \<open>
  The loop of RemoveOrder and of RemoveLease: \<open>out\<close> starts nil, and every element that
  is not equal to the id is appended to it, in the order of the range.
\<close>

fun remove_loop :: "'a \<Rightarrow> 'a list \<Rightarrow> 'a list \<Rightarrow> 'a list" where
  "remove_loop ident out [] = out"
| "remove_loop ident out (e # es) =
     remove_loop ident (if \<not> Equals ident e then out @ [e] else out) es"

definition RemoveOrder ::
  "'o \<Rightarrow> ('s, 'm, 'g, 'o, 'l) DeploymentData \<Rightarrow> ('s, 'm, 'g, 'o, 'l) DeploymentData" where
  "RemoveOrder order dd = dd\<lparr>OrderID := remove_loop order [] (OrderID dd)\<rparr>"

definition AddLease ::
  "'l \<Rightarrow> ('s, 'm, 'g, 'o, 'l) DeploymentData \<Rightarrow> ('s, 'm, 'g, 'o, 'l) DeploymentData" where
  "AddLease lease dd = dd\<lparr>LeaseID := LeaseID dd @ [lease]\<rparr>"

definition RemoveLease ::
  "'l \<Rightarrow> ('s, 'm, 'g, 'o, 'l) DeploymentData \<Rightarrow> ('s, 'm, 'g, 'o, 'l) DeploymentData" where
  "RemoveLease order dd = dd\<lparr>LeaseID := remove_loop order [] (LeaseID dd)\<rparr>"

text \<open>A tracker to evaluate the methods on: two groups, nothing tracked yet.\<close>

definition dd0 :: "(unit, unit, nat, nat, nat) DeploymentData" where
  "dd0 = \<lparr>SDLFile = [], SDL = (), Manifest = (), Groups = [Some 7, Some 8],
          DeploymentID = \<lparr>Owner = [1, 2], DSeq = 5\<rparr>,
          OrderID = [], LeaseID = [], Version = [9]\<rparr>"

text \<open>
  A run of the tracker: the calls a client makes on the order collection, in the order it
  makes them.
\<close>

datatype 'o order_call = CallAddOrder 'o | CallRemoveOrder 'o

fun do_order_call ::
  "'o order_call \<Rightarrow> ('s, 'm, 'g, 'o, 'l) DeploymentData \<Rightarrow> ('s, 'm, 'g, 'o, 'l) DeploymentData" where
  "do_order_call (CallAddOrder x) dd = AddOrder x dd"
| "do_order_call (CallRemoveOrder x) dd = RemoveOrder x dd"

definition run_order_calls ::
  "'o order_call list \<Rightarrow> ('s, 'm, 'g, 'o, 'l) DeploymentData \<Rightarrow> ('s, 'm, 'g, 'o, 'l) DeploymentData" where
  "run_order_calls calls dd = fold do_order_call calls dd"

text \<open>The ids of the AddOrder calls of a run, in call order.\<close>

fun added :: "'o order_call list \<Rightarrow> 'o list" where
  "added [] = []"
| "added (CallAddOrder x # cs) = x # added cs"
| "added (CallRemoveOrder x # cs) = added cs"

text \<open>
  An id is added and not subsequently removed: some AddOrder of it has no RemoveOrder of
  it after it.
\<close>

fun added_not_removed :: "'o \<Rightarrow> 'o order_call list \<Rightarrow> bool" where
  "added_not_removed x [] = False"
| "added_not_removed x (c # cs) =
     ((c = CallAddOrder x \<and> CallRemoveOrder x \<notin> set cs) \<or> added_not_removed x cs)"

section \<open>The lease slice in memory\<close>

text \<open>
  Leases hands the caller the slice \<open>dd.LeaseID\<close> itself (\<open>out := dd.LeaseID\<close> copies the
  slice header, not the elements), so what the caller holds shares its backing array with
  the tracker. To say what later calls do to it, this section keeps headers and arrays
  apart: a slice is the address of its backing array, a length and a capacity; the heap
  gives the cells of every array allocated so far and the next free address. Address 0 is
  nil. The code never reslices, so a slice starts at the first cell of its array.
\<close>

record slice =
  s_array :: nat
  s_len :: nat
  s_cap :: nat

record 'a heap =
  h_arrays :: "nat \<Rightarrow> 'a list"
  h_next :: nat

definition nil_slice :: slice where
  "nil_slice = \<lparr>s_array = 0, s_len = 0, s_cap = 0\<rparr>"

text \<open>
  Go's built-in \<open>append(s, x)\<close>. With room left (\<open>len < cap\<close>) it writes \<open>x\<close> into the cell
  after the last element of the same array and returns the header one longer. Without, it
  allocates a new array that holds the old elements and \<open>x\<close>, the rest zeroed, and returns
  a header on it. How much larger the new array is, is the runtime's choice: \<open>grow\<close>, any
  function of the old capacity, never less than what is needed. \<open>zero\<close> is the zero value
  of the element type.
\<close>

definition go_append ::
  "(nat \<Rightarrow> nat) \<Rightarrow> 'a \<Rightarrow> 'a heap \<Rightarrow> slice \<Rightarrow> 'a \<Rightarrow> 'a heap \<times> slice" where
  "go_append grow zero h s x =
     (if s_len s < s_cap s then
        (h\<lparr>h_arrays := (h_arrays h)(s_array s := (h_arrays h (s_array s))[s_len s := x])\<rparr>,
         s\<lparr>s_len := Suc (s_len s)\<rparr>)
      else
        let newcap = max (Suc (s_len s)) (grow (s_cap s));
            a = h_next h
        in (h\<lparr>h_arrays := (h_arrays h)
                (a := take (s_len s) (h_arrays h (s_array s)) @ x #
                      replicate (newcap - Suc (s_len s)) zero),
              h_next := Suc a\<rparr>,
            \<lparr>s_array = a, s_len = Suc (s_len s), s_cap = newcap\<rparr>))"

text \<open>What a holder of the header \<open>s\<close> reads from it: its first \<open>len\<close> cells.\<close>

definition slice_elems :: "'a heap \<Rightarrow> slice \<Rightarrow> 'a list" where
  "slice_elems h s = take (s_len s) (h_arrays h (s_array s))"

text \<open>
  The part of the tracker the three lease methods touch: the field \<open>LeaseID\<close>, now a
  header, and the heap of LeaseID arrays.
\<close>

record 'l tracker_mem =
  m_LeaseID :: slice
  m_heap :: "'l heap"

definition Leases_mem :: "'l tracker_mem \<Rightarrow> slice" where
  "Leases_mem m = m_LeaseID m"

definition AddLease_mem :: "(nat \<Rightarrow> nat) \<Rightarrow> 'l \<Rightarrow> 'l \<Rightarrow> 'l tracker_mem \<Rightarrow> 'l tracker_mem" where
  "AddLease_mem grow zero lease m =
     (case go_append grow zero (m_heap m) (m_LeaseID m) lease of
        (h, s) \<Rightarrow> m\<lparr>m_LeaseID := s, m_heap := h\<rparr>)"

text \<open>
  One iteration of the range loop of RemoveLease, at index \<open>i\<close> of the slice \<open>src\<close> the
  range statement evaluated once: read the element, append it to \<open>out\<close> unless it equals
  the id.
\<close>

definition RemoveLease_step ::
  "(nat \<Rightarrow> nat) \<Rightarrow> 'l \<Rightarrow> 'l \<Rightarrow> slice \<Rightarrow> nat \<Rightarrow> 'l heap \<times> slice \<Rightarrow> 'l heap \<times> slice" where
  "RemoveLease_step grow zero order src i st =
     (case st of (h, out) \<Rightarrow>
        let e = h_arrays h (s_array src) ! i
        in if \<not> Equals order e then go_append grow zero h out e else (h, out))"

definition RemoveLease_mem :: "(nat \<Rightarrow> nat) \<Rightarrow> 'l \<Rightarrow> 'l \<Rightarrow> 'l tracker_mem \<Rightarrow> 'l tracker_mem" where
  "RemoveLease_mem grow zero order m =
     (case fold (RemoveLease_step grow zero order (m_LeaseID m)) [0..<s_len (m_LeaseID m)]
             (m_heap m, nil_slice) of
        (h, out) \<Rightarrow> m\<lparr>m_LeaseID := out, m_heap := h\<rparr>)"

text \<open>The calls made on the lease collection after a slice was handed out, run in order.\<close>

datatype 'l lease_call = CallAddLease 'l | CallRemoveLease 'l

fun do_lease_call_mem :: "(nat \<Rightarrow> nat) \<Rightarrow> 'l \<Rightarrow> 'l lease_call \<Rightarrow> 'l tracker_mem \<Rightarrow> 'l tracker_mem" where
  "do_lease_call_mem grow zero (CallAddLease x) m = AddLease_mem grow zero x m"
| "do_lease_call_mem grow zero (CallRemoveLease x) m = RemoveLease_mem grow zero x m"

definition run_lease_calls_mem ::
  "(nat \<Rightarrow> nat) \<Rightarrow> 'l \<Rightarrow> 'l lease_call list \<Rightarrow> 'l tracker_mem \<Rightarrow> 'l tracker_mem" where
  "run_lease_calls_mem grow zero calls m = fold (do_lease_call_mem grow zero) calls m"

text \<open>
  What Go's runtime keeps true of every slice: the length is within the capacity, the
  capacity within the array, the array is allocated, and nil has no capacity.
\<close>

definition wf_slice :: "'a heap \<Rightarrow> slice \<Rightarrow> bool" where
  "wf_slice h s =
     (s_len s \<le> s_cap s \<and> s_cap s \<le> length (h_arrays h (s_array s)) \<and>
      s_array s < h_next h \<and> (s_array s = 0 \<longrightarrow> s_cap s = 0))"

definition wf_mem :: "'l tracker_mem \<Rightarrow> bool" where
  "wf_mem m = wf_slice (m_heap m) (m_LeaseID m)"

text \<open>
  The cells \<open>0..<n\<close> of array \<open>a\<close> are out of reach of appends to \<open>s\<close>: \<open>a\<close> is allocated
  (a new array will not be \<open>a\<close>), and if \<open>s\<close> is on \<open>a\<close>, it is at least \<open>n\<close> long (an append
  in place writes at index \<open>len s\<close>).
\<close>

definition guards :: "nat \<Rightarrow> nat \<Rightarrow> 'a heap \<Rightarrow> slice \<Rightarrow> bool" where
  "guards a n h s = (a < h_next h \<and> (s_array s = a \<longrightarrow> n \<le> s_len s))"

text \<open>The lease collection the memory state stands for.\<close>

definition leases_of :: "'l tracker_mem \<Rightarrow> 'l list" where
  "leases_of m = slice_elems (m_heap m) (m_LeaseID m)"

text \<open>
  A memory state to evaluate on: the tracker as NewDeploymentData leaves it
  (\<open>make([]mtypes.LeaseID, 0)\<close>: an empty slice that is not nil), a runtime that doubles
  the capacity, and three leases added. The third append leaves one spare cell.
\<close>

definition grow2 :: "nat \<Rightarrow> nat" where
  "grow2 c = 2 * c"

definition mem0 :: "nat tracker_mem" where
  "mem0 = \<lparr>m_LeaseID = \<lparr>s_array = 1, s_len = 0, s_cap = 0\<rparr>,
           m_heap = \<lparr>h_arrays = (\<lambda>a. []), h_next = 2\<rparr>\<rparr>"

definition mem3 :: "nat tracker_mem" where
  "mem3 = run_lease_calls_mem grow2 0 [CallAddLease 1, CallAddLease 2, CallAddLease 3] mem0"

section \<open>The create-deployment message\<close>

text \<open>
  MsgCreate builds the message from the tracker's fields and appends \<open>*group\<close> for every
  pointer of Groups, in order. Dereferencing a nil pointer panics; that is the one way the
  method can fail. It assigns to no field of the tracker: the tracker is returned as it
  came.
\<close>

datatype panic = NilDereference

fun MsgCreate_loop ::
  "'g MsgCreateDeployment \<Rightarrow> 'g ptr list \<Rightarrow> panic + 'g MsgCreateDeployment" where
  "MsgCreate_loop msg [] = Inr msg"
| "MsgCreate_loop msg (grp # grps) =
     (case grp of
        None \<Rightarrow> Inl NilDereference
      | Some g \<Rightarrow> MsgCreate_loop (msg\<lparr>msg_Groups := msg_Groups msg @ [g]\<rparr>) grps)"

definition MsgCreate ::
  "('s, 'm, 'g, 'o, 'l) DeploymentData \<Rightarrow>
   (panic + 'g MsgCreateDeployment) \<times> ('s, 'm, 'g, 'o, 'l) DeploymentData" where
  "MsgCreate dd =
     (MsgCreate_loop \<lparr>msg_ID = DeploymentID dd, msg_Groups = [], msg_Version = Version dd\<rparr>
        (Groups dd), dd)"

section \<open>Configuration, keys and the transaction pipeline\<close>

text \<open>
  The rest of the package talks to the file system, the key store and the chain through
  library calls. Each call the code makes is a function of the environment it runs in: a
  field of one of the records \<open>libs\<close>, \<open>chain\<close>, \<open>os_env\<close> and \<open>sdl_env\<close> below, named
  after the call. The code's own control flow around these calls is what the definitions
  of this section transcribe.

  A Go \<open>error\<close> is \<open>error option\<close>: \<open>None\<close> is nil. An error carries its message; the
  errors \<open>os.IsNotExist\<close> recognises are a constructor of their own.
\<close>

datatype error = ErrNotExist string | Err string

definition os_IsNotExist :: "error option \<Rightarrow> bool" where
  "os_IsNotExist err = (case err of Some (ErrNotExist p) \<Rightarrow> True | _ \<Rightarrow> False)"

text \<open>The message of an error, as \<open>fmt.Println\<close> prints it.\<close>

fun error_text :: "error \<Rightarrow> string" where
  "error_text (ErrNotExist s) = s"
| "error_text (Err s) = s"

definition defaultKey :: string where
  "defaultKey = ''default''"

text \<open>
  The struct Config. \<open>keybase\<close>, \<open>address\<close> and \<open>Amino\<close> are nil until set. The types of
  the key store, the codec, the gas adjustment (a float64 the code only passes on) and a
  coin are the libraries': type parameters.
\<close>

record ('kb, 'cdc, 'fl, 'coin) Config =
  ChainID :: string
  RPCAddr :: string
  Keyfile :: string
  Keypass :: string
  gasAdj :: 'fl
  gasPrices :: "'coin list"
  keybase :: "'kb option"
  address :: "byte list option"
  Amino :: "'cdc option"

text \<open>
  The fields of \<open>cctx.CLIContext\<close> that CLICtx sets (\<open>Input\<close> and \<open>Output\<close>, the standard
  streams, left out), the arguments of \<open>auth.NewTxBuilder\<close>, and what the code reads of
  an account.
\<close>

record ('kb, 'cdc, 'cl) CLIContext =
  ctx_FromAddress :: "byte list option"
  ctx_Client :: "'cl option"
  ctx_ChainID :: string
  ctx_Keybase :: "'kb option"
  ctx_NodeURI :: string
  ctx_OutputFormat :: string
  ctx_From :: string
  ctx_BroadcastMode :: string
  ctx_FromName :: string
  ctx_Codec :: "'cdc option"
  ctx_TrustNode :: bool
  ctx_UseLedger :: bool
  ctx_Simulate :: bool
  ctx_GenerateOnly :: bool
  ctx_Indent :: bool
  ctx_SkipConfirm :: bool

record ('kb, 'cdc, 'fl, 'coin) TxBuilder =
  txb_txEncoder :: "'cdc option"
  txb_accountNumber :: uint64
  txb_sequence :: uint64
  txb_gas :: uint64
  txb_gasAdjustment :: 'fl
  txb_simulateAndExecute :: bool
  txb_chainID :: string
  txb_memo :: string
  txb_fees :: "'coin list"
  txb_gasPrices :: "'coin list"
  txb_keybase :: "'kb option"

record account =
  acc_AccountNumber :: uint64
  acc_Sequence :: uint64

text \<open>
  The calls SendMsgs makes outside the package, in the order it makes them: the log the
  functions below extend. GetAccount, EnrichWithGas (a simulation on the node) and
  BroadcastTxCommit go to the network; BuildAndSign signs locally.
\<close>

datatype 'msg event =
    E_ValidateBasic 'msg
  | E_NewClient
  | E_GetAccount
  | E_EnrichWithGas
  | E_BuildAndSign
  | E_BroadcastTxCommit "byte list"

text \<open>
  The libraries. \<open>rpchttp_New\<close> gives a client, or an error when the address does not
  parse. \<open>client_Status\<close> is \<open>Status()\<close> called on what NewTMClient returned, a client or
  nil: the latest block height (an int64, here its value), an error, or a panic.
  \<open>keybase_Get_Address\<close> is \<open>k, _ := keybase.Get(name)\<close> followed by \<open>k.GetAddress()\<close>:
  the address, or a panic when the failed lookup left \<open>k\<close> nil. Then \<open>ValidateBasic\<close> of
  a message and the calls of the auth module.
\<close>

record ('kb, 'cl) libs =
  rpchttp_New :: "string \<Rightarrow> string \<Rightarrow> error + 'cl"
  client_Status :: "'cl option \<Rightarrow> panic + error + int"
  keybase_Get_Address :: "'kb \<Rightarrow> string \<Rightarrow> panic + byte list"

record ('msg, 'kb, 'cdc, 'cl, 'fl, 'coin, 'resp) chain =
  ValidateBasic :: "'msg \<Rightarrow> error option"
  GetAccount :: "('kb, 'cdc, 'cl) CLIContext \<Rightarrow> byte list option \<Rightarrow> error + account"
  EnrichWithGas :: "('kb, 'cdc, 'fl, 'coin) TxBuilder \<Rightarrow> ('kb, 'cdc, 'cl) CLIContext \<Rightarrow>
    'msg list \<Rightarrow> error + ('kb, 'cdc, 'fl, 'coin) TxBuilder"
  BuildAndSign :: "('kb, 'cdc, 'fl, 'coin) TxBuilder \<Rightarrow> string \<Rightarrow> string \<Rightarrow> 'msg list \<Rightarrow>
    byte list \<times> error option"
  ctx_BroadcastTxCommit :: "('kb, 'cdc, 'cl) CLIContext \<Rightarrow> byte list \<Rightarrow> 'resp \<times> error option"
  zero_TxResponse :: 'resp

text \<open>CLICtx fills a context from the configuration and the client it is given.\<close>

definition CLICtx :: "('kb, 'cdc, 'fl, 'coin) Config \<Rightarrow> 'cl option \<Rightarrow> ('kb, 'cdc, 'cl) CLIContext" where
  "CLICtx c client =
     \<lparr>ctx_FromAddress = address c, ctx_Client = client, ctx_ChainID = ChainID c,
      ctx_Keybase = keybase c, ctx_NodeURI = RPCAddr c, ctx_OutputFormat = ''json'',
      ctx_From = defaultKey, ctx_BroadcastMode = ''sync'', ctx_FromName = defaultKey,
      ctx_Codec = Amino c, ctx_TrustNode = True, ctx_UseLedger = False, ctx_Simulate = False,
      ctx_GenerateOnly = False, ctx_Indent = True, ctx_SkipConfirm = True\<rparr>"

text \<open>
  GetAccAddress: the address of the struct when set, else the address of the default key
  when there is a key store, else nil. The error of \<open>keybase.Get\<close> is dropped. (The call
  also sets the bech32 prefix of the SDK's global configuration, which nothing here
  reads.)
\<close>

definition GetAccAddress ::
  "('kb, 'cl) libs \<Rightarrow> ('kb, 'cdc, 'fl, 'coin) Config \<Rightarrow> panic + byte list option" where
  "GetAccAddress lib c =
     (case address c of
        Some a \<Rightarrow> Inr (Some a)
      | None \<Rightarrow>
          (case keybase c of
             Some kb \<Rightarrow>
               (case keybase_Get_Address lib kb defaultKey of
                  Inl p \<Rightarrow> Inl p
                | Inr a \<Rightarrow> Inr (Some a))
           | None \<Rightarrow> Inr None))"

text \<open>NewTMClient drops the error of \<open>rpchttp.New\<close>: the client is nil then.\<close>

definition NewTMClient :: "('kb, 'cl) libs \<Rightarrow> ('kb, 'cdc, 'fl, 'coin) Config \<Rightarrow> 'cl option" where
  "NewTMClient lib c =
     (case rpchttp_New lib (RPCAddr c) ''/websocket'' of Inl err \<Rightarrow> None | Inr out \<Rightarrow> Some out)"

text \<open>
  BuildAndSignTx: a client and a context, the account of the deployer's address, a
  transaction builder with the account's numbers and the fixed gas settings, the gas
  estimate, then the signature. Each step that returns an error ends the call with it.
  BroadcastTxCommit makes a client and a context of its own.
\<close>

definition BuildAndSignTx ::
  "('kb, 'cl) libs \<Rightarrow> ('msg, 'kb, 'cdc, 'cl, 'fl, 'coin, 'resp) chain \<Rightarrow>
   ('kb, 'cdc, 'fl, 'coin) Config \<Rightarrow> 'msg list \<Rightarrow> 'msg event list \<Rightarrow> (panic + byte list \<times> error option) \<times> 'msg event list" where
  "BuildAndSignTx lib sys c msgs log =
     (let ctx = CLICtx c (NewTMClient lib c);
          log = log @ [E_NewClient]
      in case GetAccAddress lib c of
           Inl p \<Rightarrow> (Inl p, log)
         | Inr addr \<Rightarrow>
             (let log = log @ [E_GetAccount]
              in case GetAccount sys ctx addr of
                   Inl err \<Rightarrow> (Inr ([], Some err), log)
                 | Inr acc \<Rightarrow>
                     (let txBldr = \<lparr>txb_txEncoder = Amino c,
                            txb_accountNumber = acc_AccountNumber acc,
                            txb_sequence = acc_Sequence acc, txb_gas = 200000,
                            txb_gasAdjustment = gasAdj c, txb_simulateAndExecute = True,
                            txb_chainID = ChainID c, txb_memo = [], txb_fees = [],
                            txb_gasPrices = gasPrices c, txb_keybase = keybase c\<rparr>;
                          log = log @ [E_EnrichWithGas]
                      in case EnrichWithGas sys txBldr ctx msgs of
                           Inl err \<Rightarrow> (Inr ([], Some err), log)
                         | Inr txBldr \<Rightarrow>
                             (Inr (BuildAndSign sys txBldr defaultKey (Keypass c) msgs),
                              log @ [E_BuildAndSign]))))"

definition BroadcastTxCommit ::
  "('kb, 'cl) libs \<Rightarrow> ('msg, 'kb, 'cdc, 'cl, 'fl, 'coin, 'resp) chain \<Rightarrow>
   ('kb, 'cdc, 'fl, 'coin) Config \<Rightarrow> byte list \<Rightarrow> 'msg event list \<Rightarrow> ('resp \<times> error option) \<times> 'msg event list" where
  "BroadcastTxCommit lib sys c txBytes log =
     (ctx_BroadcastTxCommit sys (CLICtx c (NewTMClient lib c)) txBytes,
      log @ [E_NewClient, E_BroadcastTxCommit txBytes])"

text \<open>The first loop of SendMsgs: ValidateBasic of each message, returning at the first error.\<close>

fun SendMsgs_validate ::
  "('msg, 'kb, 'cdc, 'cl, 'fl, 'coin, 'resp) chain \<Rightarrow> 'msg list \<Rightarrow> 'msg event list \<Rightarrow>
   error option \<times> 'msg event list" where
  "SendMsgs_validate sys [] log = (None, log)"
| "SendMsgs_validate sys (msg # msgs) log =
     (case ValidateBasic sys msg of
        Some err \<Rightarrow> (Some err, log @ [E_ValidateBasic msg])
      | None \<Rightarrow> SendMsgs_validate sys msgs (log @ [E_ValidateBasic msg]))"

definition SendMsgs ::
  "('kb, 'cl) libs \<Rightarrow> ('msg, 'kb, 'cdc, 'cl, 'fl, 'coin, 'resp) chain \<Rightarrow>
   ('kb, 'cdc, 'fl, 'coin) Config \<Rightarrow> 'msg list \<Rightarrow> 'msg event list \<Rightarrow> (panic + 'resp \<times> error option) \<times> 'msg event list" where
  "SendMsgs lib sys c datagrams log =
     (case SendMsgs_validate sys datagrams log of
        (Some err, log) \<Rightarrow> (Inr (zero_TxResponse sys, Some err), log)
      | (None, log) \<Rightarrow>
          (case BuildAndSignTx lib sys c datagrams log of
             (Inl p, log) \<Rightarrow> (Inl p, log)
           | (Inr (out, Some err), log) \<Rightarrow> (Inr (zero_TxResponse sys, Some err), log)
           | (Inr (out, None), log) \<Rightarrow>
               (case BroadcastTxCommit lib sys c out log of (r, log) \<Rightarrow> (Inr r, log))))"

text \<open>
  How a call ends: a panic, \<open>os.Exit\<close> with a status, or a return. The operating system
  and the remaining libraries, as initConfig, validateConfig and CreateKeybase call them:
  \<open>keys_ImportPrivKey\<close> is \<open>keys.NewInMemory()\<close> followed by \<open>ImportPrivKey\<close>, giving the
  key store and the error; \<open>yaml_Unmarshal\<close> gives the four fields of the file;
  \<open>homePath\<close> is the package variable.
\<close>

datatype 'a ending = Panicked panic | Exited nat | Returned 'a

record ('kb, 'cdc, 'fl) os_env =
  app_MakeCodec :: 'cdc
  zero_float64 :: 'fl
  homePath :: string
  path_Join :: "string \<Rightarrow> string \<Rightarrow> string"
  os_Stat :: "string \<Rightarrow> error option"
  os_Open :: "string \<Rightarrow> error option"
  ioutil_ReadAll :: "string \<Rightarrow> error + string"
  ioutil_ReadFile :: "string \<Rightarrow> error + string"
  keys_ImportPrivKey :: "string \<Rightarrow> string \<Rightarrow> string \<Rightarrow> 'kb \<times> error option"
  flags_GetString_home :: "error + string"
  viper_ReadInConfig :: "string \<Rightarrow> error option"
  yaml_Unmarshal :: "string \<Rightarrow> error + string \<times> string \<times> string \<times> string"

text \<open>
  CreateKeybase opens and reads the key file and imports the key; the key store is
  assigned whether or not the import succeeded. validateConfig prints a warning and
  returns nil when the key file does not exist; it calls GetAccAddress and drops the
  result. initConfig gives how the call ends, the package variable \<open>config\<close> (\<open>None\<close>
  while not assigned) and the lines printed; \<open>viper.ConfigFileUsed()\<close> is the path it has
  just given to \<open>viper.SetConfigFile\<close>.
\<close>

definition CreateKeybase ::
  "('kb, 'cdc, 'fl) os_env \<Rightarrow> ('kb, 'cdc, 'fl, 'coin) Config \<Rightarrow>
   error option \<times> ('kb, 'cdc, 'fl, 'coin) Config" where
  "CreateKeybase os c =
     (let kf = path_Join os (homePath os) (Keyfile c)
      in case os_Open os kf of
           Some err \<Rightarrow> (Some err, c)
         | None \<Rightarrow>
             (case ioutil_ReadAll os kf of
                Inl err \<Rightarrow> (Some err, c)
              | Inr byt \<Rightarrow>
                  (case keys_ImportPrivKey os defaultKey byt (Keypass c) of
                     (kb, err) \<Rightarrow> (err, c\<lparr>keybase := Some kb\<rparr>))))"

definition validateConfig ::
  "('kb, 'cl) libs \<Rightarrow> ('kb, 'cdc, 'fl) os_env \<Rightarrow> ('kb, 'cdc, 'fl, 'coin) Config \<Rightarrow> string list \<Rightarrow>
   panic + error option \<times> ('kb, 'cdc, 'fl, 'coin) Config \<times> string list" where
  "validateConfig lib os c stdout =
     (let c = c\<lparr>Amino := Some (app_MakeCodec os)\<rparr>
      in case rpchttp_New lib (RPCAddr c) ''/websocket'' of
           Inl err \<Rightarrow> Inr (Some err, c, stdout)
         | Inr client \<Rightarrow>
             (let keypath = path_Join os (homePath os) (Keyfile c)
              in if os_IsNotExist (os_Stat os keypath) then
                   Inr (None, c,
                     stdout @
                     [''Private key specified in the config file doesn't exist: '' @ keypath])
                 else
                   (case CreateKeybase os c of
                      (Some err, c) \<Rightarrow> Inr (Some err, c, stdout)
                    | (None, c) \<Rightarrow>
                        (case GetAccAddress lib c of
                           Inl p \<Rightarrow> Inl p
                         | Inr a \<Rightarrow> Inr (None, c, stdout)))))"

definition initConfig ::
  "('kb, 'cl) libs \<Rightarrow> ('kb, 'cdc, 'fl) os_env \<Rightarrow> string list \<Rightarrow>
   error option ending \<times> ('kb, 'cdc, 'fl, 'coin) Config option \<times> string list" where
  "initConfig lib os stdout =
     (case flags_GetString_home os of
        Inl err \<Rightarrow> (Returned (Some err), None, stdout)
      | Inr home \<Rightarrow>
          (let config = \<lparr>ChainID = [], RPCAddr = [], Keyfile = [], Keypass = [],
                 gasAdj = zero_float64 os, gasPrices = [], keybase = None, address = None,
                 Amino = None\<rparr>;
               cfgPath = path_Join os home ''config.yaml''
           in case os_Stat os cfgPath of
                None \<Rightarrow>
                  (case viper_ReadInConfig os cfgPath of
                     None \<Rightarrow>
                       (case ioutil_ReadFile os cfgPath of
                          Inl err \<Rightarrow>
                            (Exited 1, Some config,
                             stdout @ [''Error reading file: '' @ error_text err])
                        | Inr file \<Rightarrow>
                            (case yaml_Unmarshal os file of
                               Inl err \<Rightarrow>
                                 (Exited 1, Some config,
                                  stdout @ [''Error unmarshalling config: '' @ error_text err])
                             | Inr (chain_id, rpc_addr, keyfile, keypass) \<Rightarrow>
                                 (case validateConfig lib os
                                    (config\<lparr>ChainID := chain_id, RPCAddr := rpc_addr,
                                       Keyfile := keyfile, Keypass := keypass\<rparr>) stdout of
                                    Inl p \<Rightarrow> (Panicked p, Some config, stdout)
                                  | Inr (Some err, config, stdout) \<Rightarrow>
                                      (Exited 1, Some config,
                                       stdout @
                                       [''Error parsing chain config: '' @ error_text err])
                                  | Inr (None, config, stdout) \<Rightarrow>
                                      (Returned None, Some config, stdout))))
                   | Some err \<Rightarrow> (Returned None, Some config, stdout))
              | Some err \<Rightarrow>
                  if os_IsNotExist (Some err) then
                    (Returned None, Some config,
                     stdout @ [''config file '' @ cfgPath @ '' doesn't exist''])
                  else (Returned None, Some config, stdout)))"

text \<open>
  The SDL library and the flags, as NewDeploymentData calls them. BlockHeight converts
  the int64 height to uint64.
\<close>

record ('s, 'm, 'g, 'fs) sdl_env =
  ReadFile :: "string \<Rightarrow> error + byte list"
  sdl_Read :: "byte list \<Rightarrow> error + 's"
  DeploymentGroups :: "'s \<Rightarrow> error + 'g ptr list"
  sdl_Manifest :: "'s \<Rightarrow> error + 'm"
  sdl_ManifestVersion :: "'m \<Rightarrow> error + byte list"
  AccAddress_String :: "byte list \<Rightarrow> string"
  DeploymentIDFromFlags :: "'fs \<Rightarrow> string \<Rightarrow> error + DeploymentID"

definition BlockHeight ::
  "('kb, 'cl) libs \<Rightarrow> ('kb, 'cdc, 'fl, 'coin) Config \<Rightarrow> panic + uint64 \<times> error option" where
  "BlockHeight lib c =
     (case client_Status lib (NewTMClient lib c) of
        Inl p \<Rightarrow> Inl p
      | Inr (Inl err) \<Rightarrow> Inr (0, Some err)
      | Inr (Inr LatestBlockHeight) \<Rightarrow> Inr (word_of_int LatestBlockHeight, None))"

definition NewDeploymentData ::
  "('kb, 'cl) libs \<Rightarrow> ('s, 'm, 'g, 'fs) sdl_env \<Rightarrow> ('kb, 'cdc, 'fl, 'coin) Config \<Rightarrow>
   string \<Rightarrow> 'fs \<Rightarrow> byte list \<Rightarrow> panic + error + ('s, 'm, 'g, 'o, 'l) DeploymentData" where
  "NewDeploymentData lib env config file flags depAddr =
     (case ReadFile env file of
        Inl err \<Rightarrow> Inr (Inl err)
      | Inr f \<Rightarrow>
     (case sdl_Read env f of
        Inl err \<Rightarrow> Inr (Inl err)
      | Inr sdlSpec \<Rightarrow>
     (case DeploymentGroups env sdlSpec of
        Inl err \<Rightarrow> Inr (Inl err)
      | Inr groups \<Rightarrow>
     (case sdl_Manifest env sdlSpec of
        Inl err \<Rightarrow> Inr (Inl err)
      | Inr mani \<Rightarrow>
     (case sdl_ManifestVersion env mani of
        Inl err \<Rightarrow> Inr (Inl err)
      | Inr ver \<Rightarrow>
     (case DeploymentIDFromFlags env flags (AccAddress_String env depAddr) of
        Inl err \<Rightarrow> Inr (Inl err)
      | Inr ident \<Rightarrow>
     (case (if DSeq ident = 0 then
              (case BlockHeight lib config of
                 Inl p \<Rightarrow> Inl p
               | Inr (h, Some err) \<Rightarrow> Inr (Inl err)
               | Inr (h, None) \<Rightarrow> Inr (Inr (ident\<lparr>DSeq := h\<rparr>)))
            else Inr (Inr ident)) of
        Inl p \<Rightarrow> Inl p
      | Inr (Inl err) \<Rightarrow> Inr (Inl err)
      | Inr (Inr ident) \<Rightarrow>
          Inr (Inr \<lparr>SDLFile = f, SDL = sdlSpec, Manifest = mani, Groups = groups,
                    DeploymentID = ident, OrderID = [], LeaseID = [], Version = ver\<rparr>))))))))"

text \<open>
  An environment to evaluate on. The node at \<open>down\<close> refuses connections and \<open>Status\<close>
  on a nil client panics; the key file of the configuration does not exist; of the
  specification files one is missing and one does not parse; the flag 99 is rejected.
\<close>

definition lib0 :: "(nat, nat) libs" where
  "lib0 = \<lparr>rpchttp_New = (\<lambda>remote ws. if remote = [] then Inl (Err ''no address'')
               else Inr (length remote)),
           client_Status = (\<lambda>cl.
               if cl = None then Inl NilDereference
               else if cl = Some 4 then Inr (Inl (Err ''connection refused''))
               else Inr (Inr 4242)),
           keybase_Get_Address = (\<lambda>kb name. Inr [10, 11])\<rparr>"

definition env0 :: "(nat, nat, nat, nat) sdl_env" where
  "env0 = \<lparr>ReadFile = (\<lambda>name.
               if name = ''missing.yml'' then Inl (ErrNotExist ''open missing.yml'')
               else if name = ''syntax.yml'' then Inr [0]
               else if name = ''nogroups.yml'' then Inr [1]
               else if name = ''nomanifest.yml'' then Inr [2]
               else if name = ''noversion.yml'' then Inr [3]
               else Inr [4]),
           sdl_Read = (\<lambda>buf. if buf = [0] then Inl (Err ''yaml: bad syntax'') else Inr (unat (hd buf))),
           DeploymentGroups = (\<lambda>s. if s = 1 then Inl (Err ''no groups'') else Inr [Some 7, Some 8]),
           sdl_Manifest = (\<lambda>s. if s = 2 then Inl (Err ''no manifest'') else Inr s),
           sdl_ManifestVersion = (\<lambda>m. if m = 3 then Inl (Err ''no version'') else Inr [9]),
           AccAddress_String = (\<lambda>a. ''akash1'' @ map (\<lambda>b. char_of (unat b)) a),
           DeploymentIDFromFlags = (\<lambda>dseq owner.
               if dseq = 99 then Inl (Err ''bad flag'')
               else Inr \<lparr>Owner = [1, 2], DSeq = of_nat dseq\<rparr>)\<rparr>"

definition chain0 :: "(nat, nat, unit, nat, unit, unit, string) chain" where
  "chain0 = \<lparr>ValidateBasic = (\<lambda>m. if m = 0 then Some (Err ''invalid message'') else None),
             GetAccount = (\<lambda>ctx a. Inr \<lparr>acc_AccountNumber = 3, acc_Sequence = 8\<rparr>),
             EnrichWithGas = (\<lambda>txBldr ctx msgs. Inr (txBldr\<lparr>txb_gas := 70000\<rparr>)),
             BuildAndSign = (\<lambda>txBldr name pass msgs. ([7, 7], None)),
             ctx_BroadcastTxCommit = (\<lambda>ctx tx. (''committed'', None)),
             zero_TxResponse = []\<rparr>"

definition config0 :: "(nat, unit, unit, unit) Config" where
  "config0 = \<lparr>ChainID = ''testnet'', RPCAddr = ''http://localhost:26657'',
              Keyfile = ''key.priv'', Keypass = ''12345678'', gasAdj = (), gasPrices = [],
              keybase = Some 5, address = None, Amino = Some ()\<rparr>"

definition os0 :: "(nat, unit, unit) os_env" where
  "os0 = \<lparr>app_MakeCodec = (), zero_float64 = (), homePath = ''/home/u/.deploy'',
          path_Join = (\<lambda>a b. a @ ''/'' @ b),
          os_Stat = (\<lambda>p. if p = ''/home/u/.deploy/config.yaml'' then None else Some (ErrNotExist p)),
          os_Open = (\<lambda>p. Some (ErrNotExist p)),
          ioutil_ReadAll = (\<lambda>p. Inl (ErrNotExist p)),
          ioutil_ReadFile = (\<lambda>p. Inr ''chain-id: testnet''),
          keys_ImportPrivKey = (\<lambda>name armor pass. (5, None)),
          flags_GetString_home = Inr ''/home/u/.deploy'',
          viper_ReadInConfig = (\<lambda>p. None),
          yaml_Unmarshal = (\<lambda>file. Inr (''testnet'', ''http://localhost:26657'', ''key.priv'',
            ''12345678''))\<rparr>"

definition dd_new :: "uint64 \<Rightarrow> (nat, nat, nat, nat, nat) DeploymentData" where
  "dd_new dseq = \<lparr>SDLFile = [4], SDL = 4, Manifest = 4, Groups = [Some 7, Some 8],
     DeploymentID = \<lparr>Owner = [1, 2], DSeq = dseq\<rparr>, OrderID = [], LeaseID = [],
     Version = [9]\<rparr>"

section \<open>Callers of the lease methods\<close>

text \<open>
  The calls one caller makes on the lease collection, run in order on the tracker, and
  the ids it adds and removes.
\<close>

fun do_lease_call ::
  "'l lease_call \<Rightarrow> ('s, 'm, 'g, 'o, 'l) DeploymentData \<Rightarrow> ('s, 'm, 'g, 'o, 'l) DeploymentData" where
  "do_lease_call (CallAddLease x) dd = AddLease x dd"
| "do_lease_call (CallRemoveLease x) dd = RemoveLease x dd"

definition run_lease_calls ::
  "'l lease_call list \<Rightarrow> ('s, 'm, 'g, 'o, 'l) DeploymentData \<Rightarrow> ('s, 'm, 'g, 'o, 'l) DeploymentData" where
  "run_lease_calls calls dd = fold do_lease_call calls dd"

fun lease_adds :: "'l lease_call list \<Rightarrow> 'l list" where
  "lease_adds [] = []"
| "lease_adds (CallAddLease x # cs) = x # lease_adds cs"
| "lease_adds (CallRemoveLease x # cs) = lease_adds cs"

fun lease_removes :: "'l lease_call list \<Rightarrow> 'l list" where
  "lease_removes [] = []"
| "lease_removes (CallAddLease x # cs) = lease_removes cs"
| "lease_removes (CallRemoveLease x # cs) = x # lease_removes cs"

text \<open>
  AddLease and RemoveLease take the tracker's exclusive lock on entry and release it on
  return (\<open>dd.Lock()\<close>, \<open>defer dd.Unlock()\<close>), so the body of one call never overlaps
  another's: the calls of concurrent callers take effect one at a time, each caller's in
  its own order. \<open>interleaving callers run\<close> says that \<open>run\<close> is such an order of the
  calls of \<open>callers\<close>, one list of calls per caller.
\<close>

inductive interleaving :: "'a list list \<Rightarrow> 'a list \<Rightarrow> bool" where
  finished: "concat callers = [] \<Longrightarrow> interleaving callers []"
| next_call: "callers = before @ (c # rest) # after \<Longrightarrow> interleaving (before @ rest # after) run \<Longrightarrow>
     interleaving callers (c # run)"

section \<open>The removal loop\<close>

lemma remove_loop_keeps:
  "remove_loop ident out xs = out @ filter (\<lambda>e. \<not> Equals ident e) xs"
  by (induction xs arbitrary: out) simp_all

lemma remove_loop_filter:
  "remove_loop ident out xs = out @ filter (\<lambda>e. e \<noteq> ident) xs"
  by (simp add: remove_loop_keeps Equals_def eq_commute)

lemma remove_loop_absent:
  "\<forall>e\<in>set xs. \<not> Equals ident e \<Longrightarrow> remove_loop ident [] xs = xs"
  by (simp add: remove_loop_keeps filter_id_conv)

section \<open>Size predicates\<close>

text \<open>
  C2. For every tracker, ExpectedOrders is true exactly when the order collection is as
  long as Groups, and ExpectedLeases is true exactly when the lease collection is as long
  as Groups.
\<close>

theorem Expected_iff_lengths:
  "ExpectedOrders dd = (length (OrderID dd) = length (Groups dd)) \<and>
   ExpectedLeases dd = (length (LeaseID dd) = length (Groups dd))"
  unfolding ExpectedOrders_def ExpectedLeases_def by (simp add: eq_commute)

section \<open>Removing an id that is not tracked\<close>

text \<open>
  C4. For every tracker and every order id that no element of the order collection
  equals, RemoveOrder changes nothing: the collection has the same length and the same
  elements (and every other field is as before). The same holds for RemoveLease and the
  lease collection. Presence is by value: \<open>Equals\<close>, not identity. (Where the
  collection was an empty slice that is not nil, Go leaves a nil slice; both have length
  0 and no elements.)
\<close>

theorem Remove_absent_noop:
  "((\<forall>e\<in>set (OrderID dd). \<not> Equals order e) \<longrightarrow>
      OrderID (RemoveOrder order dd) = OrderID dd \<and>
      length (OrderID (RemoveOrder order dd)) = length (OrderID dd) \<and>
      RemoveOrder order dd = dd) \<and>
   ((\<forall>e\<in>set (LeaseID dd). \<not> Equals lease e) \<longrightarrow>
      LeaseID (RemoveLease lease dd) = LeaseID dd \<and>
      length (LeaseID (RemoveLease lease dd)) = length (LeaseID dd) \<and>
      RemoveLease lease dd = dd)"
  by (simp add: RemoveOrder_def RemoveLease_def remove_loop_absent)

theorem Remove_absent_noop_witness:
  "OrderID (AddLease 4 (AddOrder 2 (AddOrder 1 dd0))) = [1, 2] \<and>
   \<not> Equals 3 (1::nat) \<and> \<not> Equals 3 (2::nat) \<and>
   RemoveOrder 3 (AddLease 4 (AddOrder 2 (AddOrder 1 dd0))) =
     AddLease 4 (AddOrder 2 (AddOrder 1 dd0)) \<and>
   OrderID (RemoveOrder 3 (AddLease 4 (AddOrder 2 (AddOrder 1 dd0)))) = [1, 2] \<and>
   LeaseID (AddLease 4 (AddOrder 2 (AddOrder 1 dd0))) = [4] \<and> \<not> Equals 6 (4::nat) \<and>
   RemoveLease 6 (AddLease 4 (AddOrder 2 (AddOrder 1 dd0))) =
     AddLease 4 (AddOrder 2 (AddOrder 1 dd0)) \<and>
   LeaseID (RemoveLease 6 (AddLease 4 (AddOrder 2 (AddOrder 1 dd0)))) = [4]"
  using Remove_absent_noop [of "AddLease 4 (AddOrder 2 (AddOrder 1 dd0))" 3 6]
  by (simp add: AddOrder_def AddLease_def Equals_def dd0_def)

section \<open>Runs of AddOrder and RemoveOrder\<close>

lemma added_not_removed_iff:
  "added_not_removed x calls =
     (\<exists>pre post. calls = pre @ CallAddOrder x # post \<and> CallRemoveOrder x \<notin> set post)"
proof (induction calls)
  case Nil
  then show ?case by simp
next
  case (Cons c cs)
  show ?case
  proof
    assume "added_not_removed x (c # cs)"
    then consider "c = CallAddOrder x" "CallRemoveOrder x \<notin> set cs" | "added_not_removed x cs"
      by auto
    then show "\<exists>pre post. c # cs = pre @ CallAddOrder x # post \<and> CallRemoveOrder x \<notin> set post"
    proof cases
      case 1
      then have "c # cs = [] @ CallAddOrder x # cs" by simp
      with 1 show ?thesis by blast
    next
      case 2
      with Cons.IH obtain pre post where "cs = pre @ CallAddOrder x # post" "CallRemoveOrder x \<notin> set post"
        by blast
      then have "c # cs = (c # pre) @ CallAddOrder x # post" by simp
      with \<open>CallRemoveOrder x \<notin> set post\<close> show ?thesis by blast
    qed
  next
    assume "\<exists>pre post. c # cs = pre @ CallAddOrder x # post \<and> CallRemoveOrder x \<notin> set post"
    then obtain pre post where eq: "c # cs = pre @ CallAddOrder x # post" and nr: "CallRemoveOrder x \<notin> set post"
      by blast
    show "added_not_removed x (c # cs)"
    proof (cases pre)
      case Nil
      with eq nr show ?thesis by simp
    next
      case (Cons p ps)
      with eq have "cs = ps @ CallAddOrder x # post" by simp
      with nr Cons.IH show ?thesis by auto
    qed
  qed
qed

lemma set_run_order_calls:
  "set (OrderID (run_order_calls calls dd)) =
     {x. added_not_removed x calls} \<union> {x \<in> set (OrderID dd). CallRemoveOrder x \<notin> set calls}"
  unfolding run_order_calls_def
proof (induction calls arbitrary: dd)
  case Nil
  then show ?case by simp
next
  case (Cons c cs)
  show ?case
  proof (cases c)
    case (CallAddOrder y)
    then show ?thesis using Cons.IH [of "AddOrder y dd"]
      by (auto simp: AddOrder_def)
  next
    case (CallRemoveOrder y)
    then show ?thesis using Cons.IH [of "RemoveOrder y dd"]
      by (auto simp: RemoveOrder_def remove_loop_filter)
  qed
qed

lemma distinct_run_order_calls:
  "distinct (OrderID dd) \<Longrightarrow> distinct (added calls) \<Longrightarrow>
   set (OrderID dd) \<inter> set (added calls) = {} \<Longrightarrow>
   distinct (OrderID (run_order_calls calls dd))"
  unfolding run_order_calls_def
proof (induction calls arbitrary: dd)
  case Nil
  then show ?case by simp
next
  case (Cons c cs)
  show ?case
  proof (cases c)
    case (CallAddOrder y)
    with Cons.prems show ?thesis
      by (auto intro!: Cons.IH simp: AddOrder_def)
  next
    case (CallRemoveOrder y)
    with Cons.prems show ?thesis
      by (auto intro!: Cons.IH simp: RemoveOrder_def remove_loop_filter)
  qed
qed

text \<open>
  C1. For every sequence of AddOrder and RemoveOrder calls on a tracker that starts with
  no orders, the order collection holds exactly the ids that were added and not
  subsequently removed (an AddOrder of the id with no RemoveOrder of it later in the
  sequence), whatever the order of the calls. When no id is added twice, the collection
  holds each of them once: it has no duplicates, and its length is the number of such
  ids.
\<close>

theorem orders_tracked_exactly:
  "OrderID dd = [] \<Longrightarrow>
   set (OrderID (run_order_calls calls dd)) =
     {x. \<exists>pre post. calls = pre @ CallAddOrder x # post \<and> CallRemoveOrder x \<notin> set post} \<and>
   (distinct (added calls) \<longrightarrow>
      distinct (OrderID (run_order_calls calls dd)) \<and>
      length (OrderID (run_order_calls calls dd)) =
        card {x. \<exists>pre post. calls = pre @ CallAddOrder x # post \<and> CallRemoveOrder x \<notin> set post})"
proof -
  assume e: "OrderID dd = []"
  have s: "set (OrderID (run_order_calls calls dd)) =
     {x. \<exists>pre post. calls = pre @ CallAddOrder x # post \<and> CallRemoveOrder x \<notin> set post}"
    using e by (simp add: set_run_order_calls added_not_removed_iff)
  have d: "distinct (OrderID (run_order_calls calls dd))" if "distinct (added calls)"
    using that e by (simp add: distinct_run_order_calls)
  show ?thesis using s d distinct_card [of "OrderID (run_order_calls calls dd)"] by auto
qed

theorem orders_tracked_exactly_witness:
  "OrderID dd0 = [] \<and>
   distinct (added [CallAddOrder 1, CallAddOrder 2, CallRemoveOrder 1, CallAddOrder (3::nat),
     CallRemoveOrder 4]) \<and>
   OrderID (run_order_calls [CallAddOrder 1, CallAddOrder 2, CallRemoveOrder 1, CallAddOrder 3,
     CallRemoveOrder 4] dd0) = [2, 3] \<and>
   {x. \<exists>pre post. [CallAddOrder 1, CallAddOrder 2, CallRemoveOrder 1, CallAddOrder 3,
      CallRemoveOrder 4] = pre @ CallAddOrder x # post \<and> CallRemoveOrder x \<notin> set post} =
     {2, 3::nat}"
proof -
  let ?calls = "[CallAddOrder 1, CallAddOrder 2, CallRemoveOrder 1, CallAddOrder (3::nat),
    CallRemoveOrder 4]"
  have e: "OrderID dd0 = []"
    by (simp add: dd0_def)
  have r: "OrderID (run_order_calls ?calls dd0) = [2, 3]"
    by (simp add: run_order_calls_def AddOrder_def RemoveOrder_def Equals_def dd0_def)
  have d: "distinct (added ?calls)"
    by simp
  from orders_tracked_exactly [OF e, of ?calls]
  have "set (OrderID (run_order_calls ?calls dd0)) =
    {x. \<exists>pre post. ?calls = pre @ CallAddOrder x # post \<and> CallRemoveOrder x \<notin> set post}"
    by (rule conjunct1)
  then have "{x. \<exists>pre post. ?calls = pre @ CallAddOrder x # post \<and> CallRemoveOrder x \<notin> set post} =
    {2, 3}"
    unfolding r by simp
  with e r d show ?thesis
    by blast
qed

section \<open>Adding an id twice\<close>

lemma OrderID_AddOrder_funpow:
  "OrderID ((AddOrder order ^^ n) dd) = OrderID dd @ replicate n order"
  by (induction n) (simp_all add: AddOrder_def replicate_append_same)

lemma Groups_AddOrder_funpow:
  "Groups ((AddOrder order ^^ n) dd) = Groups dd"
  by (induction n) (simp_all add: AddOrder_def)

text \<open>
  C8. AddOrder and AddLease append without looking for the id: on every tracker, adding
  an id that is already present makes the collection one longer and the id occur once
  more, so the collection holds a duplicate. The collections are sequences with
  repetition, not sets, and ExpectedOrders can be true with fewer distinct orders than
  groups: on a tracker with no orders and at least two groups, adding one id as many
  times as there are groups makes ExpectedOrders true with a single distinct order.
\<close>

theorem Add_retains_duplicates:
  "(order \<in> set (OrderID dd) \<longrightarrow>
      OrderID (AddOrder order dd) = OrderID dd @ [order] \<and>
      length (OrderID (AddOrder order dd)) = Suc (length (OrderID dd)) \<and>
      count_list (OrderID (AddOrder order dd)) order = Suc (count_list (OrderID dd) order) \<and>
      \<not> distinct (OrderID (AddOrder order dd))) \<and>
   (lease \<in> set (LeaseID dd) \<longrightarrow>
      LeaseID (AddLease lease dd) = LeaseID dd @ [lease] \<and>
      length (LeaseID (AddLease lease dd)) = Suc (length (LeaseID dd)) \<and>
      count_list (LeaseID (AddLease lease dd)) lease = Suc (count_list (LeaseID dd) lease) \<and>
      \<not> distinct (LeaseID (AddLease lease dd))) \<and>
   (OrderID dd' = [] \<and> 2 \<le> length (Groups dd') \<longrightarrow>
      ExpectedOrders ((AddOrder order ^^ length (Groups dd')) dd') \<and>
      card (set (OrderID ((AddOrder order ^^ length (Groups dd')) dd'))) = 1 \<and>
      card (set (OrderID ((AddOrder order ^^ length (Groups dd')) dd'))) < length (Groups dd'))"
proof -
  have a: "card (set (replicate n order)) = 1" if "2 \<le> n" for n
    using that by (cases n) simp_all
  show ?thesis
    using a [of "length (Groups dd')"]
    by (simp add: AddOrder_def AddLease_def ExpectedOrders_def OrderID_AddOrder_funpow
        Groups_AddOrder_funpow)
qed

theorem Add_retains_duplicates_witness:
  "(1::nat) \<in> set (OrderID (AddLease 4 (AddOrder 1 dd0))) \<and>
   OrderID (AddOrder 1 (AddLease 4 (AddOrder 1 dd0))) = [1, 1] \<and>
   (4::nat) \<in> set (LeaseID (AddLease 4 (AddOrder 1 dd0))) \<and>
   LeaseID (AddLease 4 (AddLease 4 (AddOrder 1 dd0))) = [4, 4] \<and>
   OrderID dd0 = [] \<and> 2 \<le> length (Groups dd0) \<and>
   (AddOrder 1 ^^ length (Groups dd0)) dd0 = AddOrder 1 (AddOrder 1 dd0) \<and>
   ExpectedOrders (AddOrder 1 (AddOrder 1 dd0)) \<and>
   card (set (OrderID (AddOrder 1 (AddOrder 1 dd0)))) = 1"
proof -
  have n: "(AddOrder 1 ^^ length (Groups dd0)) dd0 = AddOrder 1 (AddOrder 1 dd0)"
    by (simp add: dd0_def numeral_2_eq_2)
  show ?thesis
    using Add_retains_duplicates [of 1 "AddLease 4 (AddOrder 1 dd0)" 4 dd0] unfolding n
    by (simp add: AddOrder_def AddLease_def dd0_def)
qed

section \<open>Appends never reach a slice handed out earlier\<close>

lemma go_append_frame:
  assumes "guards a n h s" and "go_append grow zero h s x = (h', s')"
  shows "take n (h_arrays h' a) = take n (h_arrays h a) \<and> guards a n h' s'"
  using assms
  by (auto simp: go_append_def guards_def Let_def split: if_splits)

lemma RemoveLease_step_frame:
  assumes "guards a n h s" and "RemoveLease_step grow zero order src i (h, s) = (h', s')"
  shows "take n (h_arrays h' a) = take n (h_arrays h a) \<and> guards a n h' s'"
  using assms go_append_frame [of a n h s grow zero _ h' s']
  by (auto simp: RemoveLease_step_def Let_def split: if_splits)

lemma RemoveLease_fold_frame:
  assumes "guards a n h s"
    and "fold (RemoveLease_step grow zero order src) is (h, s) = (h', s')"
  shows "take n (h_arrays h' a) = take n (h_arrays h a) \<and> guards a n h' s'"
  using assms
proof (induction "is" arbitrary: h s)
  case Nil
  then show ?case by simp
next
  case (Cons i "is")
  obtain h1 s1 where st: "RemoveLease_step grow zero order src i (h, s) = (h1, s1)"
    by (cases "RemoveLease_step grow zero order src i (h, s)")
  from RemoveLease_step_frame [OF Cons.prems(1) st]
  have f1: "take n (h_arrays h1 a) = take n (h_arrays h a)" and g1: "guards a n h1 s1"
    by simp_all
  from Cons.prems(2) st have "fold (RemoveLease_step grow zero order src) is (h1, s1) = (h', s')"
    by simp
  from Cons.IH [OF g1 this] f1 show ?case by simp
qed

lemma AddLease_mem_frame:
  assumes "guards a n (m_heap m) (m_LeaseID m)"
  shows "take n (h_arrays (m_heap (AddLease_mem grow zero x m)) a) = take n (h_arrays (m_heap m) a) \<and>
         guards a n (m_heap (AddLease_mem grow zero x m)) (m_LeaseID (AddLease_mem grow zero x m))"
proof -
  obtain h' s' where ap: "go_append grow zero (m_heap m) (m_LeaseID m) x = (h', s')"
    by (cases "go_append grow zero (m_heap m) (m_LeaseID m) x")
  from go_append_frame [OF assms ap] ap show ?thesis
    by (simp add: AddLease_mem_def)
qed

lemma RemoveLease_mem_frame:
  assumes "guards a n (m_heap m) (m_LeaseID m)" and "a \<noteq> 0"
  shows "take n (h_arrays (m_heap (RemoveLease_mem grow zero x m)) a) = take n (h_arrays (m_heap m) a) \<and>
         guards a n (m_heap (RemoveLease_mem grow zero x m)) (m_LeaseID (RemoveLease_mem grow zero x m))"
proof -
  obtain h' s' where fo: "fold (RemoveLease_step grow zero x (m_LeaseID m)) [0..<s_len (m_LeaseID m)]
      (m_heap m, nil_slice) = (h', s')"
    by (cases "fold (RemoveLease_step grow zero x (m_LeaseID m)) [0..<s_len (m_LeaseID m)]
      (m_heap m, nil_slice)")
  from assms have "guards a n (m_heap m) nil_slice"
    by (simp add: guards_def nil_slice_def)
  from RemoveLease_fold_frame [OF this fo] fo show ?thesis
    by (simp add: RemoveLease_mem_def)
qed

lemma run_lease_calls_mem_frame:
  assumes "guards a n (m_heap m) (m_LeaseID m)" and "a \<noteq> 0"
  shows "take n (h_arrays (m_heap (run_lease_calls_mem grow zero calls m)) a) =
         take n (h_arrays (m_heap m) a)"
  using assms unfolding run_lease_calls_mem_def
proof (induction calls arbitrary: m)
  case Nil
  then show ?case by simp
next
  case (Cons c calls)
  show ?case
  proof (cases c)
    case (CallAddLease x)
    from AddLease_mem_frame [OF Cons.prems(1), of grow zero x]
    have f: "take n (h_arrays (m_heap (AddLease_mem grow zero x m)) a) = take n (h_arrays (m_heap m) a)"
      and g: "guards a n (m_heap (AddLease_mem grow zero x m)) (m_LeaseID (AddLease_mem grow zero x m))"
      by simp_all
    from Cons.IH [OF g Cons.prems(2)] f CallAddLease show ?thesis by simp
  next
    case (CallRemoveLease x)
    from RemoveLease_mem_frame [OF Cons.prems, of grow zero x]
    have f: "take n (h_arrays (m_heap (RemoveLease_mem grow zero x m)) a) = take n (h_arrays (m_heap m) a)"
      and g: "guards a n (m_heap (RemoveLease_mem grow zero x m)) (m_LeaseID (RemoveLease_mem grow zero x m))"
      by simp_all
    from Cons.IH [OF g Cons.prems(2)] f CallRemoveLease show ?thesis by simp
  qed
qed

text \<open>
  C3. For every tracker state, the slice Leases returns is unaffected by later calls:
  after any sequence of AddLease and RemoveLease calls, the holder of that slice reads
  the same elements from it, and as many, as when it was returned. (Leases does not copy:
  the slice shares the tracker's backing array. The later calls write to that array only
  past the returned length, or to arrays allocated after it.)
\<close>

theorem Leases_snapshot_stable:
  assumes "wf_mem m" and "snap = Leases_mem m"
  shows "slice_elems (m_heap (run_lease_calls_mem grow zero calls m)) snap = slice_elems (m_heap m) snap \<and>
         length (slice_elems (m_heap (run_lease_calls_mem grow zero calls m)) snap) =
           length (slice_elems (m_heap m) snap)"
proof (cases "s_array snap = 0")
  case True
  with assms have "s_len snap = 0"
    by (simp add: wf_mem_def wf_slice_def Leases_mem_def)
  then show ?thesis by (simp add: slice_elems_def)
next
  case False
  from assms have "guards (s_array snap) (s_len snap) (m_heap m) (m_LeaseID m)"
    by (simp add: guards_def wf_mem_def wf_slice_def Leases_mem_def)
  from run_lease_calls_mem_frame [OF this False] show ?thesis
    by (simp add: slice_elems_def)
qed


theorem Leases_snapshot_stable_witness:
  "wf_mem mem3 \<and>
   Leases_mem mem3 = \<lparr>s_array = 4, s_len = 3, s_cap = 4\<rparr> \<and>
   slice_elems (m_heap mem3) (Leases_mem mem3) = [1, 2, 3] \<and>
   leases_of (run_lease_calls_mem grow2 0 [CallAddLease 4, CallRemoveLease 2, CallAddLease 5] mem3) =
     [1, 3, 4, 5] \<and>
   h_arrays (m_heap (run_lease_calls_mem grow2 0 [CallAddLease 4, CallRemoveLease 2, CallAddLease 5]
     mem3)) 4 = [1, 2, 3, 4] \<and>
   slice_elems (m_heap (run_lease_calls_mem grow2 0 [CallAddLease 4, CallRemoveLease 2, CallAddLease 5]
     mem3)) (Leases_mem mem3) = [1, 2, 3]"
proof -
  let ?calls = "[CallAddLease 4, CallRemoveLease 2, CallAddLease (5::nat)]"
  have w: "wf_mem mem3"
    by code_simp
  have s: "Leases_mem mem3 = \<lparr>s_array = 4, s_len = 3, s_cap = 4\<rparr>"
    by code_simp
  have e: "slice_elems (m_heap mem3) (Leases_mem mem3) = [1, 2, 3]"
    by code_simp
  have l: "leases_of (run_lease_calls_mem grow2 0 ?calls mem3) = [1, 3, 4, 5]"
    by code_simp
  have a: "h_arrays (m_heap (run_lease_calls_mem grow2 0 ?calls mem3)) 4 = [1, 2, 3, 4]"
    by code_simp
  from Leases_snapshot_stable [OF w refl, of grow2 0 ?calls] e
  have "slice_elems (m_heap (run_lease_calls_mem grow2 0 ?calls mem3)) (Leases_mem mem3) = [1, 2, 3]"
    by simp
  with w s e l a show ?thesis
    by blast
qed

section \<open>The memory model computes the lists of the tracker\<close>

lemma go_append_elems:
  assumes "wf_slice h s" and "go_append grow zero h s x = (h', s')"
  shows "slice_elems h' s' = slice_elems h s @ [x] \<and> wf_slice h' s'"
  using assms
  by (auto simp: go_append_def wf_slice_def slice_elems_def Let_def take_Suc_conv_app_nth
      split: if_splits)

lemma nth_map_upt_take: "n \<le> length xs \<Longrightarrow> map (\<lambda>i. xs ! i) [0..<n] = take n xs"
  by (simp add: list_eq_iff_nth_eq)

lemma take_eq_nth_eq:
  assumes "take n xs = take n ys" and "i < n"
  shows "xs ! i = ys ! i"
  using assms by (metis nth_take)

lemma RemoveLease_fold_elems:
  assumes "wf_slice h out" and "guards a n h out" and "\<forall>i\<in>set is. i < n"
    and "s_array src = a"
    and "fold (RemoveLease_step grow zero order src) is (h, out) = (h', out')"
  shows "slice_elems h' out' =
           slice_elems h out @ filter (\<lambda>e. e \<noteq> order) (map (\<lambda>i. h_arrays h a ! i) is) \<and>
         wf_slice h' out'"
  using assms
proof (induction "is" arbitrary: h out)
  case Nil
  then show ?case by simp
next
  case (Cons i "is")
  let ?e = "h_arrays h a ! i"
  obtain h1 s1 where st: "RemoveLease_step grow zero order src i (h, out) = (h1, s1)"
    by (cases "RemoveLease_step grow zero order src i (h, out)")
  from RemoveLease_step_frame [OF Cons.prems(2) st]
  have f1: "take n (h_arrays h1 a) = take n (h_arrays h a)" and g1: "guards a n h1 s1"
    by simp_all
  have e1: "slice_elems h1 s1 = slice_elems h out @ (if ?e \<noteq> order then [?e] else [])"
    and w1: "wf_slice h1 s1"
    using st Cons.prems(1,4) go_append_elems [OF Cons.prems(1), of grow zero ?e h1 s1]
    by (auto simp: RemoveLease_step_def Let_def Equals_def split: if_splits)
  have same: "map (\<lambda>j. h_arrays h1 a ! j) is = map (\<lambda>j. h_arrays h a ! j) is"
    using Cons.prems(3) take_eq_nth_eq [OF f1] by simp
  from Cons.prems(3) have b: "\<forall>i\<in>set is. i < n" by simp
  from Cons.prems(5) st
  have "fold (RemoveLease_step grow zero order src) is (h1, s1) = (h', out')"
    by simp
  from Cons.IH [OF w1 g1 b Cons.prems(4) this] e1 same show ?case
    by simp
qed

lemma AddLease_mem_refines:
  assumes "wf_mem m"
  shows "leases_of (AddLease_mem grow zero lease m) = leases_of m @ [lease] \<and>
         wf_mem (AddLease_mem grow zero lease m)"
proof -
  obtain h' s' where ap: "go_append grow zero (m_heap m) (m_LeaseID m) lease = (h', s')"
    by (cases "go_append grow zero (m_heap m) (m_LeaseID m) lease")
  from go_append_elems [OF _ ap] assms ap show ?thesis
    by (simp add: AddLease_mem_def wf_mem_def leases_of_def)
qed

lemma RemoveLease_mem_refines:
  assumes "wf_mem m"
  shows "leases_of (RemoveLease_mem grow zero order m) = remove_loop order [] (leases_of m) \<and>
         wf_mem (RemoveLease_mem grow zero order m)"
proof -
  let ?src = "m_LeaseID m" and ?h = "m_heap m"
  obtain h' s' where fo: "fold (RemoveLease_step grow zero order ?src) [0..<s_len ?src]
      (?h, nil_slice) = (h', s')"
    by (cases "fold (RemoveLease_step grow zero order ?src) [0..<s_len ?src] (?h, nil_slice)")
  from assms have w: "wf_slice ?h nil_slice"
    by (simp add: wf_mem_def wf_slice_def nil_slice_def)
  have g: "guards (s_array ?src) (s_len ?src) ?h nil_slice" if "s_array ?src \<noteq> 0"
    using assms that by (simp add: guards_def wf_mem_def wf_slice_def nil_slice_def)
  have le: "s_len ?src \<le> length (h_arrays ?h (s_array ?src))"
    using assms by (simp add: wf_mem_def wf_slice_def)
  show ?thesis
  proof (cases "s_array ?src = 0")
    case True
    with assms have "s_len ?src = 0"
      by (simp add: wf_mem_def wf_slice_def)
    with fo w show ?thesis
      by (auto simp: RemoveLease_mem_def wf_mem_def leases_of_def slice_elems_def nil_slice_def)
  next
    case False
    from RemoveLease_fold_elems [OF w g [OF False] _ refl fo]
    have "slice_elems h' s' = filter (\<lambda>e. e \<noteq> order) (take (s_len ?src) (h_arrays ?h (s_array ?src)))"
      and "wf_slice h' s'"
      using le by (simp_all add: nth_map_upt_take slice_elems_def nil_slice_def)
    with fo show ?thesis
      by (simp add: RemoveLease_mem_def wf_mem_def leases_of_def slice_elems_def
          remove_loop_filter)
  qed
qed

lemma run_lease_calls_mem_refines:
  "wf_mem m \<Longrightarrow> leases_of m = LeaseID dd \<Longrightarrow>
   leases_of (run_lease_calls_mem grow zero calls m) = LeaseID (run_lease_calls calls dd) \<and>
   wf_mem (run_lease_calls_mem grow zero calls m)"
  unfolding run_lease_calls_mem_def run_lease_calls_def
proof (induction calls arbitrary: m dd)
  case Nil
  then show ?case by simp
next
  case (Cons c calls)
  show ?case
  proof (cases c)
    case (CallAddLease x)
    from AddLease_mem_refines [OF Cons.prems(1), of grow zero x] Cons.prems(2)
    have "wf_mem (AddLease_mem grow zero x m)"
      and "leases_of (AddLease_mem grow zero x m) = LeaseID (AddLease x dd)"
      by (simp_all add: AddLease_def)
    from Cons.IH [OF this] CallAddLease show ?thesis by simp
  next
    case (CallRemoveLease x)
    from RemoveLease_mem_refines [OF Cons.prems(1), of grow zero x] Cons.prems(2)
    have "wf_mem (RemoveLease_mem grow zero x m)"
      and "leases_of (RemoveLease_mem grow zero x m) = LeaseID (RemoveLease x dd)"
      by (simp_all add: RemoveLease_def)
    from Cons.IH [OF this] CallRemoveLease show ?thesis by simp
  qed
qed

section \<open>MsgCreate\<close>

lemma MsgCreate_loop_ok:
  "None \<notin> set grps \<Longrightarrow>
   MsgCreate_loop msg grps = Inr (msg\<lparr>msg_Groups := msg_Groups msg @ map the grps\<rparr>)"
proof (induction grps arbitrary: msg)
  case Nil
  then show ?case by simp
next
  case (Cons grp grps)
  then obtain g where "grp = Some g"
    by (cases grp) auto
  with Cons show ?case
    by simp
qed

lemma map_Some_the: "None \<notin> set xs \<Longrightarrow> map Some (map the xs) = xs"
proof (induction xs)
  case Nil
  then show ?case by simp
next
  case (Cons x xs)
  then obtain y where "x = Some y"
    by (cases x) auto
  with Cons show ?case
    by simp
qed

lemma MsgCreate_loop_nil:
  "None \<in> set grps \<Longrightarrow> MsgCreate_loop msg grps = Inl NilDereference"
  by (induction grps arbitrary: msg) (auto split: option.splits)

text \<open>
  C5, as the claim states it, fails on a tracker that holds a nil group pointer: MsgCreate
  panics there and builds no message.
\<close>

theorem MsgCreate_nil_group_panics:
  "fst (MsgCreate (dd0\<lparr>Groups := [Some 7, None]\<rparr>)) = Inl NilDereference"
  by (simp add: MsgCreate_def dd0_def)

text \<open>
  C5, amended. MsgCreate never changes the tracker, and calling it again on the unmutated
  tracker gives the same outcome. For every tracker whose Groups holds no nil pointer,
  it returns the message whose ID is DeploymentID, whose Version is Version and whose
  Groups are the stored group specifications dereferenced, in the same order and as
  many. On a tracker that holds a nil group pointer it panics.
\<close>

theorem MsgCreate_pure:
  "snd (MsgCreate dd) = dd \<and>
   fst (MsgCreate (snd (MsgCreate dd))) = fst (MsgCreate dd) \<and>
   (None \<notin> set (Groups dd) \<longrightarrow>
      fst (MsgCreate dd) =
        Inr \<lparr>msg_ID = DeploymentID dd, msg_Groups = map the (Groups dd),
             msg_Version = Version dd\<rparr> \<and>
      length (map the (Groups dd)) = length (Groups dd) \<and>
      map Some (map the (Groups dd)) = Groups dd) \<and>
   (None \<in> set (Groups dd') \<longrightarrow> fst (MsgCreate dd') = Inl NilDereference)"
  using map_Some_the [of "Groups dd"]
  by (simp add: MsgCreate_def MsgCreate_loop_ok MsgCreate_loop_nil)

theorem MsgCreate_pure_witness:
  "None \<notin> set (Groups dd0) \<and>
   MsgCreate dd0 =
     (Inr \<lparr>msg_ID = \<lparr>Owner = [1, 2], DSeq = 5\<rparr>, msg_Groups = [7, 8], msg_Version = [9]\<rparr>,
      dd0) \<and>
   None \<in> set (Groups (dd0\<lparr>Groups := [Some 7, None]\<rparr>)) \<and>
   MsgCreate (dd0\<lparr>Groups := [Some 7, None]\<rparr>) =
     (Inl NilDereference, dd0\<lparr>Groups := [Some 7, None]\<rparr>)"
  using MsgCreate_pure [of dd0 "dd0\<lparr>Groups := [Some 7, None]\<rparr>"]
    MsgCreate_pure [of "dd0\<lparr>Groups := [Some 7, None]\<rparr>" dd0]
  by (simp add: dd0_def prod_eq_iff)

section \<open>SendMsgs validates before it builds\<close>

lemma SendMsgs_validate_fails:
  "\<forall>m\<in>set pre. ValidateBasic sys m = None \<Longrightarrow> ValidateBasic sys bad = Some err \<Longrightarrow>
   SendMsgs_validate sys (pre @ bad # post) log =
     (Some err, log @ map E_ValidateBasic (pre @ [bad]))"
  by (induction pre arbitrary: log) simp_all

lemma SendMsgs_validate_passes:
  "\<forall>m\<in>set msgs. ValidateBasic sys m = None \<Longrightarrow>
   SendMsgs_validate sys msgs log = (None, log @ map E_ValidateBasic msgs)"
  by (induction msgs arbitrary: log) simp_all

text \<open>
  C6. For every batch, if any message fails ValidateBasic then SendMsgs returns the
  error of the first such message, in batch order, and has made no other call: the batch
  splits into messages that validate, the first that does not and the rest, and the log
  holds the ValidateBasic calls up to that message and nothing else, so no transaction
  was built, signed or broadcast and the network was not reached. If every message
  validates, SendMsgs goes on to BuildAndSignTx and, when that gives bytes and no error,
  to BroadcastTxCommit.
\<close>

theorem SendMsgs_validates_first:
  "((\<exists>m\<in>set batch. ValidateBasic sys m \<noteq> None) \<longrightarrow>
      (\<exists>pre bad post err. batch = pre @ bad # post \<and>
         (\<forall>m\<in>set pre. ValidateBasic sys m = None) \<and> ValidateBasic sys bad = Some err \<and>
         SendMsgs lib sys c batch log =
           (Inr (zero_TxResponse sys, Some err), log @ map E_ValidateBasic (pre @ [bad])))) \<and>
   ((\<forall>m\<in>set pre. ValidateBasic sys m = None) \<and> ValidateBasic sys bad = Some err \<longrightarrow>
      SendMsgs lib sys c (pre @ bad # post) log =
        (Inr (zero_TxResponse sys, Some err), log @ map E_ValidateBasic (pre @ [bad]))) \<and>
   ((\<forall>m\<in>set datagrams. ValidateBasic sys m = None) \<longrightarrow>
      SendMsgs lib sys c datagrams log =
        (case BuildAndSignTx lib sys c datagrams (log @ map E_ValidateBasic datagrams) of
           (Inl p, log') \<Rightarrow> (Inl p, log')
         | (Inr (out, Some err), log') \<Rightarrow> (Inr (zero_TxResponse sys, Some err), log')
         | (Inr (out, None), log') \<Rightarrow>
             (Inr (ctx_BroadcastTxCommit sys (CLICtx c (NewTMClient lib c)) out),
              log' @ [E_NewClient, E_BroadcastTxCommit out])))"
proof -
  have first: "\<exists>pre bad post err. batch = pre @ bad # post \<and>
      (\<forall>m\<in>set pre. ValidateBasic sys m = None) \<and> ValidateBasic sys bad = Some err \<and>
      SendMsgs lib sys c batch log =
        (Inr (zero_TxResponse sys, Some err), log @ map E_ValidateBasic (pre @ [bad]))"
    if "\<exists>m\<in>set batch. ValidateBasic sys m \<noteq> None"
  proof -
    from split_list_first_prop [OF that] obtain pre bad post
      where b: "batch = pre @ bad # post" and bad: "ValidateBasic sys bad \<noteq> None"
        and pre: "\<forall>m\<in>set pre. \<not> ValidateBasic sys m \<noteq> None"
      by blast
    from bad obtain err where err: "ValidateBasic sys bad = Some err"
      by blast
    from pre have ok: "\<forall>m\<in>set pre. ValidateBasic sys m = None"
      by simp
    have "SendMsgs lib sys c batch log =
        (Inr (zero_TxResponse sys, Some err), log @ map E_ValidateBasic (pre @ [bad]))"
      unfolding b by (simp add: SendMsgs_def SendMsgs_validate_fails [OF ok err])
    with b ok err show ?thesis
      by blast
  qed
  have rest: "((\<forall>m\<in>set pre. ValidateBasic sys m = None) \<and> ValidateBasic sys bad = Some err \<longrightarrow>
      SendMsgs lib sys c (pre @ bad # post) log =
        (Inr (zero_TxResponse sys, Some err), log @ map E_ValidateBasic (pre @ [bad]))) \<and>
   ((\<forall>m\<in>set datagrams. ValidateBasic sys m = None) \<longrightarrow>
      SendMsgs lib sys c datagrams log =
        (case BuildAndSignTx lib sys c datagrams (log @ map E_ValidateBasic datagrams) of
           (Inl p, log') \<Rightarrow> (Inl p, log')
         | (Inr (out, Some err), log') \<Rightarrow> (Inr (zero_TxResponse sys, Some err), log')
         | (Inr (out, None), log') \<Rightarrow>
             (Inr (ctx_BroadcastTxCommit sys (CLICtx c (NewTMClient lib c)) out),
              log' @ [E_NewClient, E_BroadcastTxCommit out])))"
    by (auto simp: SendMsgs_def SendMsgs_validate_fails SendMsgs_validate_passes
        BroadcastTxCommit_def split: prod.splits sum.splits option.splits)
  from first rest show ?thesis
    by blast
qed


theorem SendMsgs_validates_first_witness:
  "ValidateBasic chain0 1 = None \<and> ValidateBasic chain0 2 = None \<and>
   ValidateBasic chain0 0 = Some (Err ''invalid message'') \<and>
   (\<exists>m\<in>set [1, 2, 0, 3]. ValidateBasic chain0 m \<noteq> None) \<and>
   SendMsgs lib0 chain0 config0 [1, 2, 0, 3] [] =
     (Inr ([], Some (Err ''invalid message'')),
      [E_ValidateBasic 1, E_ValidateBasic 2, E_ValidateBasic 0]) \<and>
   ValidateBasic chain0 3 = None \<and>
   SendMsgs lib0 chain0 config0 [1, 2, 3] [] =
     (Inr (''committed'', None),
      [E_ValidateBasic 1, E_ValidateBasic 2, E_ValidateBasic 3, E_NewClient, E_GetAccount,
       E_EnrichWithGas, E_BuildAndSign, E_NewClient, E_BroadcastTxCommit [7, 7]])"
proof -
  have v: "ValidateBasic chain0 1 = None" "ValidateBasic chain0 2 = None"
    "ValidateBasic chain0 3 = None" "ValidateBasic chain0 0 = Some (Err ''invalid message'')"
    by (simp_all add: chain0_def)
  have b: "BuildAndSignTx lib0 chain0 config0 [1, 2, 3]
      [E_ValidateBasic 1, E_ValidateBasic 2, E_ValidateBasic 3] =
    (Inr ([7, 7], None), [E_ValidateBasic 1, E_ValidateBasic 2, E_ValidateBasic 3, E_NewClient,
       E_GetAccount, E_EnrichWithGas, E_BuildAndSign])"
    by (simp add: BuildAndSignTx_def GetAccAddress_def chain0_def lib0_def config0_def)
  from SendMsgs_validates_first [where batch = "[1, 2, 0, 3]" and sys = chain0 and lib = lib0
      and c = config0 and log = "[]" and pre = "[1, 2]" and bad = 0
      and err = "Err ''invalid message''" and post = "[3]" and datagrams = "[1, 2, 3]"] v b
  show ?thesis
    by (simp add: chain0_def)
qed

section \<open>A key file that does not exist\<close>

text \<open>
  C7, as the claim states it, fails: with a configuration file whose key file does not
  exist (and whose RPC address parses), initConfig prints the warning and returns nil;
  the process does not exit.
\<close>

theorem initConfig_missing_keyfile_returns:
  "os_Stat os0 (path_Join os0 (homePath os0) ''key.priv'') =
     Some (ErrNotExist ''/home/u/.deploy/key.priv'') \<and>
   initConfig lib0 os0 [] =
     (Returned None,
      Some \<lparr>ChainID = ''testnet'', RPCAddr = ''http://localhost:26657'', Keyfile = ''key.priv'',
            Keypass = ''12345678'', gasAdj = (), gasPrices = ([]::unit list), keybase = None, address = None,
            Amino = Some ()\<rparr>,
      [''Private key specified in the config file doesn't exist: /home/u/.deploy/key.priv''])"
  by (simp add: initConfig_def validateConfig_def os_IsNotExist_def os0_def lib0_def)

text \<open>
  C7, amended. For every configuration whose RPC address \<open>rpchttp.New\<close> accepts and whose
  key file path does not exist, validateConfig prints the line "Private key specified in
  the config file doesn't exist:" with the path, sets the codec, creates no key store and
  returns nil; initConfig, having read such a configuration, returns nil and the process
  goes on.
\<close>

theorem validateConfig_missing_keyfile_warns:
  "(rpchttp_New lib (RPCAddr c) ''/websocket'' = Inr client \<and>
    os_Stat os (path_Join os (homePath os) (Keyfile c)) = Some (ErrNotExist e) \<longrightarrow>
      validateConfig lib os c stdout =
        Inr (None, c\<lparr>Amino := Some (app_MakeCodec os)\<rparr>,
             stdout @ [''Private key specified in the config file doesn't exist: '' @
                       path_Join os (homePath os) (Keyfile c)])) \<and>
   (flags_GetString_home os' = Inr home \<and>
    os_Stat os' (path_Join os' home ''config.yaml'') = None \<and>
    viper_ReadInConfig os' (path_Join os' home ''config.yaml'') = None \<and>
    ioutil_ReadFile os' (path_Join os' home ''config.yaml'') = Inr file \<and>
    yaml_Unmarshal os' file = Inr (chain_id, rpc_addr, keyfile, keypass) \<and>
    rpchttp_New lib' rpc_addr ''/websocket'' = Inr client' \<and>
    os_Stat os' (path_Join os' (homePath os') keyfile) = Some (ErrNotExist e') \<longrightarrow>
      initConfig lib' os' stdout' =
        (Returned None,
         Some \<lparr>ChainID = chain_id, RPCAddr = rpc_addr, Keyfile = keyfile, Keypass = keypass,
               gasAdj = zero_float64 os', gasPrices = [], keybase = None, address = None,
               Amino = Some (app_MakeCodec os')\<rparr>,
         stdout' @ [''Private key specified in the config file doesn't exist: '' @
                    path_Join os' (homePath os') keyfile]))"
  by (simp add: initConfig_def validateConfig_def os_IsNotExist_def)

theorem validateConfig_missing_keyfile_warns_witness:
  "rpchttp_New lib0 (RPCAddr config0) ''/websocket'' = Inr 22 \<and>
   os_Stat os0 (path_Join os0 (homePath os0) (Keyfile config0)) =
     Some (ErrNotExist ''/home/u/.deploy/key.priv'') \<and>
   validateConfig lib0 os0 (config0\<lparr>keybase := None\<rparr>) [] =
     Inr (None, config0\<lparr>keybase := None\<rparr>,
          [''Private key specified in the config file doesn't exist: /home/u/.deploy/key.priv'']) \<and>
   flags_GetString_home os0 = Inr ''/home/u/.deploy'' \<and>
   os_Stat os0 ''/home/u/.deploy/config.yaml'' = None \<and>
   fst (initConfig lib0 os0 [] ::
     error option ending \<times> (nat, unit, unit, unit) Config option \<times> string list) =
     Returned None"
proof -
  let ?c = "config0\<lparr>keybase := None\<rparr>"
  have r: "rpchttp_New lib0 (RPCAddr ?c) ''/websocket'' = Inr 22"
    by (simp add: lib0_def config0_def)
  have k: "os_Stat os0 (path_Join os0 (homePath os0) (Keyfile ?c)) =
      Some (ErrNotExist ''/home/u/.deploy/key.priv'')"
    by (simp add: os0_def config0_def)
  have h: "flags_GetString_home os0 = Inr ''/home/u/.deploy''"
    and p: "path_Join os0 ''/home/u/.deploy'' ''config.yaml'' = ''/home/u/.deploy/config.yaml''"
    and s: "os_Stat os0 ''/home/u/.deploy/config.yaml'' = None"
    and v: "viper_ReadInConfig os0 ''/home/u/.deploy/config.yaml'' = None"
    and f: "ioutil_ReadFile os0 ''/home/u/.deploy/config.yaml'' = Inr ''chain-id: testnet''"
    and y: "yaml_Unmarshal os0 ''chain-id: testnet'' =
      Inr (''testnet'', ''http://localhost:26657'', ''key.priv'', ''12345678'')"
    and r': "rpchttp_New lib0 ''http://localhost:26657'' ''/websocket'' = Inr 22"
    and k': "os_Stat os0 (path_Join os0 (homePath os0) ''key.priv'') =
      Some (ErrNotExist ''/home/u/.deploy/key.priv'')"
    by (simp_all add: os0_def lib0_def)
  note t = validateConfig_missing_keyfile_warns [of lib0 ?c 22 os0 "''/home/u/.deploy/key.priv''"
      "[]" os0 "''/home/u/.deploy''" "''chain-id: testnet''" "''testnet''"
      "''http://localhost:26657''" "''key.priv''" "''12345678''" lib0 22
      "''/home/u/.deploy/key.priv''" "[]"]
  from t r k have "validateConfig lib0 os0 ?c [] =
      Inr (None, ?c\<lparr>Amino := Some (app_MakeCodec os0)\<rparr>,
        [] @ [''Private key specified in the config file doesn't exist: '' @
              path_Join os0 (homePath os0) (Keyfile ?c)])"
    by blast
  also have "\<dots> = Inr (None, ?c,
      [''Private key specified in the config file doesn't exist: /home/u/.deploy/key.priv''])"
    by (simp add: os0_def config0_def)
  finally have a: "validateConfig lib0 os0 ?c [] = Inr (None, ?c,
      [''Private key specified in the config file doesn't exist: /home/u/.deploy/key.priv''])" .
  from h s v f y r' k' have "flags_GetString_home os0 = Inr ''/home/u/.deploy'' \<and>
    os_Stat os0 (path_Join os0 ''/home/u/.deploy'' ''config.yaml'') = None \<and>
    viper_ReadInConfig os0 (path_Join os0 ''/home/u/.deploy'' ''config.yaml'') = None \<and>
    ioutil_ReadFile os0 (path_Join os0 ''/home/u/.deploy'' ''config.yaml'') =
      Inr ''chain-id: testnet'' \<and>
    yaml_Unmarshal os0 ''chain-id: testnet'' =
      Inr (''testnet'', ''http://localhost:26657'', ''key.priv'', ''12345678'') \<and>
    rpchttp_New lib0 ''http://localhost:26657'' ''/websocket'' = Inr 22 \<and>
    os_Stat os0 (path_Join os0 (homePath os0) ''key.priv'') =
      Some (ErrNotExist ''/home/u/.deploy/key.priv'')"
    unfolding p by blast
  note i = t [THEN conjunct2, THEN mp, OF this]
  have b: "fst (initConfig lib0 os0 [] ::
      error option ending \<times> (nat, unit, unit, unit) Config option \<times> string list) =
    Returned None"
    by (simp add: i)
  from r k a h s b show ?thesis
    by (simp add: config0_def)
qed

section \<open>The sequence number of a new deployment\<close>

text \<open>
  C9. Whenever NewDeploymentData returns a DeploymentData, the sequence number of its
  DeploymentID is the one DeploymentIDFromFlags gave when that is not zero, and the block
  height BlockHeight returned when it is zero. If the file cannot be read, or its content
  does not parse, or the flags gave zero and BlockHeight returned an error, then
  NewDeploymentData returns that error and no DeploymentData. When every step succeeds it
  returns the tracker with empty order and lease collections.
\<close>

theorem NewDeploymentData_sequence:
  "(NewDeploymentData lib env config file flags depAddr = Inr (Inr dd) \<longrightarrow>
      (\<exists>ident. DeploymentIDFromFlags env flags (AccAddress_String env depAddr) = Inr ident \<and>
         (DSeq ident \<noteq> 0 \<longrightarrow> DSeq (DeploymentID dd) = DSeq ident) \<and>
         (DSeq ident = 0 \<longrightarrow> BlockHeight lib config = Inr (DSeq (DeploymentID dd), None)))) \<and>
   (ReadFile env file1 = Inl err1 \<longrightarrow>
      NewDeploymentData lib env config file1 flags depAddr = Inr (Inl err1)) \<and>
   (ReadFile env file2 = Inr f2 \<and> sdl_Read env f2 = Inl err2 \<longrightarrow>
      NewDeploymentData lib env config file2 flags depAddr = Inr (Inl err2)) \<and>
   (ReadFile env file3 = Inr f3 \<and> sdl_Read env f3 = Inr s3 \<and>
    DeploymentGroups env s3 = Inr g3 \<and> sdl_Manifest env s3 = Inr m3 \<and>
    sdl_ManifestVersion env m3 = Inr v3 \<and>
    DeploymentIDFromFlags env flags3 (AccAddress_String env depAddr) = Inr id3 \<and>
    DSeq id3 = 0 \<and> BlockHeight lib config3 = Inr (h3, Some err3) \<longrightarrow>
      NewDeploymentData lib env config3 file3 flags3 depAddr = Inr (Inl err3)) \<and>
   (ReadFile env file4 = Inr f4 \<and> sdl_Read env f4 = Inr s4 \<and>
    DeploymentGroups env s4 = Inr g4 \<and> sdl_Manifest env s4 = Inr m4 \<and>
    sdl_ManifestVersion env m4 = Inr v4 \<and>
    DeploymentIDFromFlags env flags4 (AccAddress_String env depAddr) = Inr id4 \<and>
    DSeq id4 = 0 \<and> BlockHeight lib config4 = Inr (h4, None) \<longrightarrow>
      NewDeploymentData lib env config4 file4 flags4 depAddr =
        Inr (Inr \<lparr>SDLFile = f4, SDL = s4, Manifest = m4, Groups = g4,
                  DeploymentID = id4\<lparr>DSeq := h4\<rparr>, OrderID = [], LeaseID = [],
                  Version = v4\<rparr>)) \<and>
   (ReadFile env file5 = Inr f5 \<and> sdl_Read env f5 = Inr s5 \<and>
    DeploymentGroups env s5 = Inr g5 \<and> sdl_Manifest env s5 = Inr m5 \<and>
    sdl_ManifestVersion env m5 = Inr v5 \<and>
    DeploymentIDFromFlags env flags5 (AccAddress_String env depAddr) = Inr id5 \<and>
    DSeq id5 \<noteq> 0 \<longrightarrow>
      NewDeploymentData lib env config5 file5 flags5 depAddr =
        Inr (Inr \<lparr>SDLFile = f5, SDL = s5, Manifest = m5, Groups = g5,
                  DeploymentID = id5, OrderID = [], LeaseID = [], Version = v5\<rparr>))"
proof -
  have a: "NewDeploymentData lib env config file flags depAddr = Inr (Inr dd) \<longrightarrow>
      (\<exists>ident. DeploymentIDFromFlags env flags (AccAddress_String env depAddr) = Inr ident \<and>
         (DSeq ident \<noteq> 0 \<longrightarrow> DSeq (DeploymentID dd) = DSeq ident) \<and>
         (DSeq ident = 0 \<longrightarrow> BlockHeight lib config = Inr (DSeq (DeploymentID dd), None)))"
    by (auto simp: NewDeploymentData_def split: sum.splits if_splits option.splits prod.splits)
  show ?thesis
    using a by (simp add: NewDeploymentData_def)
qed

theorem NewDeploymentData_sequence_witness:
  "NewDeploymentData lib0 env0 config0 ''deploy.yml'' 7 [1, 2] = Inr (Inr (dd_new 7)) \<and>
   BlockHeight lib0 config0 = Inr (4242, None) \<and>
   NewDeploymentData lib0 env0 config0 ''deploy.yml'' 0 [1, 2] = Inr (Inr (dd_new 4242)) \<and>
   ReadFile env0 ''missing.yml'' = Inl (ErrNotExist ''open missing.yml'') \<and>
   (NewDeploymentData lib0 env0 config0 ''missing.yml'' 7 [1, 2]
      :: panic + error + (nat, nat, nat, nat, nat) DeploymentData) =
     Inr (Inl (ErrNotExist ''open missing.yml'')) \<and>
   sdl_Read env0 [0] = Inl (Err ''yaml: bad syntax'') \<and>
   (NewDeploymentData lib0 env0 config0 ''syntax.yml'' 7 [1, 2]
      :: panic + error + (nat, nat, nat, nat, nat) DeploymentData) =
     Inr (Inl (Err ''yaml: bad syntax'')) \<and>
   BlockHeight lib0 (config0\<lparr>RPCAddr := ''down''\<rparr>) = Inr (0, Some (Err ''connection refused'')) \<and>
   (NewDeploymentData lib0 env0 (config0\<lparr>RPCAddr := ''down''\<rparr>) ''deploy.yml'' 0 [1, 2]
      :: panic + error + (nat, nat, nat, nat, nat) DeploymentData) =
     Inr (Inl (Err ''connection refused''))"
proof -
  let ?down = "config0\<lparr>RPCAddr := ''down''\<rparr>"
  have r1: "ReadFile env0 ''missing.yml'' = Inl (ErrNotExist ''open missing.yml'')"
    and r2: "ReadFile env0 ''syntax.yml'' = Inr [0]"
    and p2: "sdl_Read env0 [0] = Inl (Err ''yaml: bad syntax'')"
    and r: "ReadFile env0 ''deploy.yml'' = Inr [4]"
    and p: "sdl_Read env0 [4] = Inr 4"
    and g: "DeploymentGroups env0 4 = Inr [Some 7, Some 8]"
    and m: "sdl_Manifest env0 4 = Inr 4"
    and v: "sdl_ManifestVersion env0 4 = Inr [9]"
    and i0: "DeploymentIDFromFlags env0 0 (AccAddress_String env0 [1, 2]) =
      Inr \<lparr>Owner = [1, 2], DSeq = 0\<rparr>"
    and i7: "DeploymentIDFromFlags env0 7 (AccAddress_String env0 [1, 2]) =
      Inr \<lparr>Owner = [1, 2], DSeq = 7\<rparr>"
    by (simp_all add: env0_def)
  have z: "DSeq \<lparr>Owner = [1, 2], DSeq = 0\<rparr> = 0" "DSeq \<lparr>Owner = [1, 2], DSeq = 7\<rparr> \<noteq> 0"
    by simp_all
  have up: "BlockHeight lib0 config0 = Inr (4242, None)"
    and down: "BlockHeight lib0 ?down = Inr (0, Some (Err ''connection refused''))"
    by (simp_all add: BlockHeight_def NewTMClient_def lib0_def config0_def)
  note t = NewDeploymentData_sequence [where lib = lib0 and env = env0 and depAddr = "[1, 2]"
      and config = config0 and flags = 7
      and ?file1.0 = "''missing.yml''" and ?err1.0 = "ErrNotExist ''open missing.yml''"
      and ?file2.0 = "''syntax.yml''" and ?f2.0 = "[0]" and ?err2.0 = "Err ''yaml: bad syntax''"
      and ?file3.0 = "''deploy.yml''" and ?f3.0 = "[4]" and ?s3.0 = 4
      and ?g3.0 = "[Some 7, Some 8]" and ?m3.0 = 4 and ?v3.0 = "[9]" and ?flags3.0 = 0
      and ?id3.0 = "\<lparr>Owner = [1, 2], DSeq = 0\<rparr>" and ?config3.0 = ?down and ?h3.0 = 0
      and ?err3.0 = "Err ''connection refused''"
      and ?file4.0 = "''deploy.yml''" and ?f4.0 = "[4]" and ?s4.0 = 4
      and ?g4.0 = "[Some 7, Some 8]" and ?m4.0 = 4 and ?v4.0 = "[9]" and ?flags4.0 = 0
      and ?id4.0 = "\<lparr>Owner = [1, 2], DSeq = 0\<rparr>" and ?config4.0 = config0 and ?h4.0 = 4242
      and ?file5.0 = "''deploy.yml''" and ?f5.0 = "[4]" and ?s5.0 = 4
      and ?g5.0 = "[Some 7, Some 8]" and ?m5.0 = 4 and ?v5.0 = "[9]" and ?flags5.0 = 7
      and ?id5.0 = "\<lparr>Owner = [1, 2], DSeq = 7\<rparr>" and ?config5.0 = config0]
  from t r1 have e1: "(NewDeploymentData lib0 env0 config0 ''missing.yml'' 7 [1, 2]
      :: panic + error + (nat, nat, nat, nat, nat) DeploymentData) =
     Inr (Inl (ErrNotExist ''open missing.yml''))"
    by blast
  from t r2 p2 have e2: "(NewDeploymentData lib0 env0 config0 ''syntax.yml'' 7 [1, 2]
      :: panic + error + (nat, nat, nat, nat, nat) DeploymentData) =
     Inr (Inl (Err ''yaml: bad syntax''))"
    by blast
  from t r p g m v i0 z down have e3: "(NewDeploymentData lib0 env0 ?down ''deploy.yml'' 0 [1, 2]
      :: panic + error + (nat, nat, nat, nat, nat) DeploymentData) =
     Inr (Inl (Err ''connection refused''))"
    by blast
  from t r p g m v i0 z up have "NewDeploymentData lib0 env0 config0 ''deploy.yml'' 0 [1, 2] =
      Inr (Inr \<lparr>SDLFile = [4], SDL = 4, Manifest = 4, Groups = [Some 7, Some 8],
        DeploymentID = \<lparr>Owner = [1, 2], DSeq = 0\<rparr>\<lparr>DSeq := 4242\<rparr>, OrderID = ([]::nat list),
        LeaseID = ([]::nat list), Version = [9]\<rparr>)"
    by blast
  then have e4: "NewDeploymentData lib0 env0 config0 ''deploy.yml'' 0 [1, 2] =
      Inr (Inr (dd_new 4242))"
    by (simp add: dd_new_def)
  from t r p g m v i7 z have "NewDeploymentData lib0 env0 config0 ''deploy.yml'' 7 [1, 2] =
      Inr (Inr \<lparr>SDLFile = [4], SDL = 4, Manifest = 4, Groups = [Some 7, Some 8],
        DeploymentID = \<lparr>Owner = [1, 2], DSeq = 7\<rparr>, OrderID = ([]::nat list),
        LeaseID = ([]::nat list), Version = [9]\<rparr>)"
    by blast
  then have e5: "NewDeploymentData lib0 env0 config0 ''deploy.yml'' 7 [1, 2] =
      Inr (Inr (dd_new 7))"
    by (simp add: dd_new_def)
  from e1 e2 e3 e4 e5 r1 p2 up down show ?thesis
    by blast
qed

section \<open>Leases under concurrent callers\<close>

lemma lease_adds_append: "lease_adds (xs @ ys) = lease_adds xs @ lease_adds ys"
  by (induction xs rule: lease_adds.induct) simp_all

lemma lease_removes_append: "lease_removes (xs @ ys) = lease_removes xs @ lease_removes ys"
  by (induction xs rule: lease_removes.induct) simp_all

lemma set_lease_removes: "x \<in> set (lease_removes cs) \<longleftrightarrow> CallRemoveLease x \<in> set cs"
  by (induction cs rule: lease_removes.induct) auto

lemma interleaving_subseq: "interleaving callers run \<Longrightarrow> cs \<in> set callers \<Longrightarrow> subseq cs run"
proof (induction arbitrary: cs rule: interleaving.induct)
  case (finished callers)
  then show ?case by auto
next
  case (next_call callers before c rest after run)
  show ?case
  proof (cases "cs \<in> set (before @ rest # after)")
    case True
    then have "subseq cs run" by (rule next_call.IH)
    then show ?thesis by (rule list_emb_Cons)
  next
    case False
    with next_call.prems next_call.hyps(1) have "cs = c # rest" by auto
    moreover have "subseq rest run"
      by (rule next_call.IH) simp
    ultimately show ?thesis by simp
  qed
qed

lemma interleaving_adds:
  "interleaving callers run \<Longrightarrow> mset (lease_adds run) = mset (lease_adds (concat callers))"
proof (induction rule: interleaving.induct)
  case (finished callers)
  then show ?case by (simp del: concat_eq_Nil_conv)
next
  case (next_call callers before c rest after run)
  then show ?case by (cases c) (simp_all add: lease_adds_append)
qed

lemma interleaving_removes:
  "interleaving callers run \<Longrightarrow> mset (lease_removes run) = mset (lease_removes (concat callers))"
proof (induction rule: interleaving.induct)
  case (finished callers)
  then show ?case by (simp del: concat_eq_Nil_conv)
next
  case (next_call callers before c rest after run)
  then show ?case by (cases c) (simp_all add: lease_removes_append)
qed

lemma length_filter_remove1:
  "distinct xs \<Longrightarrow> y \<in> set xs \<Longrightarrow> Suc (length (filter (\<lambda>e. e \<noteq> y) xs)) = length xs"
proof (induction xs)
  case Nil
  then show ?case by simp
next
  case (Cons a xs)
  show ?case
  proof (cases "a = y")
    case True
    with Cons.prems have "y \<notin> set xs" by simp
    then have "filter (\<lambda>e. e \<noteq> y) xs = xs" by (auto simp: filter_id_conv)
    with True show ?thesis by simp
  next
    case False
    with Cons show ?thesis by simp
  qed
qed

lemma run_lease_calls_length:
  "distinct (LeaseID dd) \<Longrightarrow> distinct (lease_adds run) \<Longrightarrow> distinct (lease_removes run) \<Longrightarrow>
   set (LeaseID dd) \<inter> set (lease_adds run) = {} \<Longrightarrow>
   \<forall>x\<in>set (lease_removes run). x \<in> set (LeaseID dd) \<or> subseq [CallAddLease x, CallRemoveLease x] run \<Longrightarrow>
   length (LeaseID (run_lease_calls run dd)) + length (lease_removes run) =
     length (LeaseID dd) + length (lease_adds run) \<and>
   distinct (LeaseID (run_lease_calls run dd)) \<and>
   set (LeaseID (run_lease_calls run dd)) =
     (set (LeaseID dd) \<union> set (lease_adds run)) - set (lease_removes run)"
  unfolding run_lease_calls_def
proof (induction run arbitrary: dd)
  case Nil
  then show ?case by simp
next
  case (Cons c run)
  show ?case
  proof (cases c)
    case (CallAddLease y)
    let ?dd = "AddLease y dd"
    have l: "LeaseID ?dd = LeaseID dd @ [y]"
      by (simp add: AddLease_def)
    from Cons.prems CallAddLease have y: "y \<notin> set (LeaseID dd)" "y \<notin> set (lease_adds run)"
      by auto
    have 1: "distinct (LeaseID ?dd)"
      using Cons.prems(1) y l by simp
    have 2: "distinct (lease_adds run)" "distinct (lease_removes run)"
      using Cons.prems(2,3) CallAddLease by simp_all
    have 3: "set (LeaseID ?dd) \<inter> set (lease_adds run) = {}"
      using Cons.prems(4) y l CallAddLease by auto
    have 4: "\<forall>x\<in>set (lease_removes run). x \<in> set (LeaseID ?dd) \<or>
        subseq [CallAddLease x, CallRemoveLease x] run"
    proof
      fix x assume x: "x \<in> set (lease_removes run)"
      with Cons.prems(5) CallAddLease
      have "x \<in> set (LeaseID dd) \<or> subseq [CallAddLease x, CallRemoveLease x] (CallAddLease y # run)"
        by simp
      then show "x \<in> set (LeaseID ?dd) \<or> subseq [CallAddLease x, CallRemoveLease x] run"
        using l x by (cases "x = y") (auto simp: subseq_singleton_left set_lease_removes)
    qed
    from Cons.IH [OF 1 2 3 4] l y CallAddLease show ?thesis
      by auto
  next
    case (CallRemoveLease y)
    let ?dd = "RemoveLease y dd"
    have l: "LeaseID ?dd = filter (\<lambda>e. e \<noteq> y) (LeaseID dd)"
      by (simp add: RemoveLease_def remove_loop_filter)
    from Cons.prems(3) CallRemoveLease have ny: "y \<notin> set (lease_removes run)"
      by simp
    have "\<not> subseq [CallAddLease y, CallRemoveLease y] (CallRemoveLease y # run)"
    proof
      assume "subseq [CallAddLease y, CallRemoveLease y] (CallRemoveLease y # run)"
      then have "subseq [CallAddLease y, CallRemoveLease y] run" by simp
      then have "subseq [CallRemoveLease y] run" by (rule subseq_Cons')
      then have "y \<in> set (lease_removes run)"
        by (simp add: subseq_singleton_left set_lease_removes)
      with ny show False by simp
    qed
    with Cons.prems(5) CallRemoveLease have yin: "y \<in> set (LeaseID dd)"
      by auto
    have len: "Suc (length (LeaseID ?dd)) = length (LeaseID dd)"
      unfolding l using Cons.prems(1) yin by (rule length_filter_remove1)
    have 1: "distinct (LeaseID ?dd)"
      using Cons.prems(1) l by simp
    have 2: "distinct (lease_adds run)" "distinct (lease_removes run)"
      using Cons.prems(2,3) CallRemoveLease by simp_all
    have 3: "set (LeaseID ?dd) \<inter> set (lease_adds run) = {}"
      using Cons.prems(4) l CallRemoveLease by auto
    have 4: "\<forall>x\<in>set (lease_removes run). x \<in> set (LeaseID ?dd) \<or>
        subseq [CallAddLease x, CallRemoveLease x] run"
    proof
      fix x assume x: "x \<in> set (lease_removes run)"
      with ny have "x \<noteq> y" by auto
      moreover from x Cons.prems(5) CallRemoveLease
      have "x \<in> set (LeaseID dd) \<or> subseq [CallAddLease x, CallRemoveLease x] (CallRemoveLease y # run)"
        by simp
      ultimately show "x \<in> set (LeaseID ?dd) \<or> subseq [CallAddLease x, CallRemoveLease x] run"
        using l by auto
    qed
    from Cons.prems(4) yin CallRemoveLease have na: "y \<notin> set (lease_adds run)"
      by auto
    from Cons.IH [OF 1 2 3 4] l len ny na CallRemoveLease show ?thesis
      by auto
  qed
qed

text \<open>
  C10, as the claim states it, fails: one caller adds a lease and another removes it,
  both under the lock. When the RemoveLease gets the lock first it finds nothing to
  remove, and the tracker ends with one lease, where adds minus removes is zero.
\<close>

theorem leases_race_counterexample:
  "interleaving [[CallAddLease (10::nat)], [CallRemoveLease 10]]
     [CallRemoveLease 10, CallAddLease 10] \<and>
   LeaseID dd0 = [] \<and>
   LeaseID (run_lease_calls [CallRemoveLease 10, CallAddLease 10] dd0) = [10] \<and>
   int (length (LeaseID (run_lease_calls [CallRemoveLease 10, CallAddLease 10] dd0))) \<noteq>
     int (length (lease_adds (concat [[CallAddLease 10], [CallRemoveLease 10]]))) -
     int (length (lease_removes (concat [[CallAddLease 10], [CallRemoveLease 10]])))"
proof -
  have 0: "interleaving [[], []] ([]::nat lease_call list)"
    by (rule finished) simp
  have 1: "interleaving [[CallAddLease (10::nat)], []] [CallAddLease 10]"
    by (rule next_call [where before = "[]" and rest = "[]::nat lease_call list"
          and after = "[[]]"])
      (simp_all add: 0)
  have "interleaving [[CallAddLease (10::nat)], [CallRemoveLease 10]]
      [CallRemoveLease 10, CallAddLease 10]"
    by (rule next_call [where before = "[[CallAddLease (10::nat)]]" and rest = "[]" and after = "[]"])
      (simp_all add: 1)
  then show ?thesis
    by (simp add: run_lease_calls_def AddLease_def RemoveLease_def dd0_def)
qed

text \<open>
  C10, amended. Concurrent callers that follow the lock discipline, on a tracker that
  starts with no leases: if the lease ids added are all distinct, no id is removed twice,
  and every RemoveLease of an id is made by a caller that has added that id before, then
  in whatever order the calls get the lock no update is lost: the collection ends with
  exactly the ids added and not removed, each once, and its cardinality is the number of
  adds minus the number of removes.
\<close>

theorem leases_under_lock:
  assumes "interleaving callers run"
    and "LeaseID dd = []"
    and "distinct (lease_adds (concat callers))"
    and "distinct (lease_removes (concat callers))"
    and "\<forall>x\<in>set (lease_removes (concat callers)).
           \<exists>cs\<in>set callers. subseq [CallAddLease x, CallRemoveLease x] cs"
  shows "int (length (LeaseID (run_lease_calls run dd))) =
           int (length (lease_adds (concat callers))) -
           int (length (lease_removes (concat callers))) \<and>
         distinct (LeaseID (run_lease_calls run dd)) \<and>
         set (LeaseID (run_lease_calls run dd)) =
           set (lease_adds (concat callers)) - set (lease_removes (concat callers))"
proof -
  note a = interleaving_adds [OF assms(1)] and r = interleaving_removes [OF assms(1)]
  have da: "distinct (lease_adds run)"
    using a assms(3) by (metis mset_eq_imp_distinct_iff)
  have dr: "distinct (lease_removes run)"
    using r assms(4) by (metis mset_eq_imp_distinct_iff)
  have sa: "set (lease_adds run) = set (lease_adds (concat callers))"
    and sr: "set (lease_removes run) = set (lease_removes (concat callers))"
    using a r by (auto dest: mset_eq_setD)
  have la: "length (lease_adds run) = length (lease_adds (concat callers))"
    and lr: "length (lease_removes run) = length (lease_removes (concat callers))"
    using a r by (auto dest: mset_eq_length)
  have sub: "\<forall>x\<in>set (lease_removes run). x \<in> set (LeaseID dd) \<or>
      subseq [CallAddLease x, CallRemoveLease x] run"
  proof
    fix x assume "x \<in> set (lease_removes run)"
    with sr assms(5) obtain cs where "cs \<in> set callers"
      and "subseq [CallAddLease x, CallRemoveLease x] cs"
      by auto
    with interleaving_subseq [OF assms(1)] have "subseq [CallAddLease x, CallRemoveLease x] run"
      by (meson subseq_order.order_trans)
    then show "x \<in> set (LeaseID dd) \<or> subseq [CallAddLease x, CallRemoveLease x] run" ..
  qed
  from run_lease_calls_length [OF _ da dr _ sub] assms(2) sa sr la lr show ?thesis
    by auto
qed

theorem leases_under_lock_witness:
  "interleaving [[CallAddLease (10::nat), CallRemoveLease 10, CallAddLease 30], [CallAddLease 20]]
     [CallAddLease 10, CallAddLease 20, CallRemoveLease 10, CallAddLease 30] \<and>
   LeaseID dd0 = [] \<and>
   LeaseID (run_lease_calls [CallAddLease 10, CallAddLease 20, CallRemoveLease 10, CallAddLease 30]
     dd0) = [20, 30] \<and>
   int (length (LeaseID (run_lease_calls
     [CallAddLease 10, CallAddLease 20, CallRemoveLease 10, CallAddLease 30] dd0))) = 3 - 1"
proof -
  let ?a = "[CallAddLease (10::nat), CallRemoveLease 10, CallAddLease 30]"
  let ?run = "[CallAddLease (10::nat), CallAddLease 20, CallRemoveLease 10, CallAddLease 30]"
  have 0: "interleaving [[], []] ([]::nat lease_call list)"
    by (rule finished) simp
  have 1: "interleaving [[CallAddLease (30::nat)], []] [CallAddLease 30]"
    by (rule next_call [where before = "[]" and rest = "[]::nat lease_call list"
          and after = "[[]]"])
      (simp_all add: 0)
  have 2: "interleaving [[CallRemoveLease (10::nat), CallAddLease 30], []]
      [CallRemoveLease 10, CallAddLease 30]"
    by (rule next_call [where before = "[]" and rest = "[CallAddLease (30::nat)]" and after = "[[]]"])
      (simp_all add: 1)
  have 3: "interleaving [[CallRemoveLease (10::nat), CallAddLease 30], [CallAddLease 20]]
      [CallAddLease 20, CallRemoveLease 10, CallAddLease 30]"
    by (rule next_call [where before = "[[CallRemoveLease (10::nat), CallAddLease 30]]" and rest = "[]"
          and after = "[]"]) (simp_all add: 2)
  have i: "interleaving [?a, [CallAddLease (20::nat)]] ?run"
    by (rule next_call [where before = "[]" and rest = "[CallRemoveLease (10::nat), CallAddLease 30]"
          and after = "[[CallAddLease (20::nat)]]"]) (simp_all add: 3)
  have e: "LeaseID dd0 = []"
    by (simp add: dd0_def)
  have da: "distinct (lease_adds (concat [?a, [CallAddLease (20::nat)]]))"
    and dr: "distinct (lease_removes (concat [?a, [CallAddLease (20::nat)]]))"
    by simp_all
  have s: "\<forall>x\<in>set (lease_removes (concat [?a, [CallAddLease (20::nat)]])).
      \<exists>cs\<in>set [?a, [CallAddLease 20]]. subseq [CallAddLease x, CallRemoveLease x] cs"
    by simp
  have r: "LeaseID (run_lease_calls ?run dd0) = [20, 30]"
    by (simp add: run_lease_calls_def AddLease_def RemoveLease_def Equals_def dd0_def)
  from leases_under_lock [OF i e da dr s]
  have "int (length (LeaseID (run_lease_calls ?run dd0))) = 3 - 1"
    by simp
  with i e r show ?thesis
    by blast
qed

end
